(* ===== verification/Prelude.thy ===== *)
theory Prelude
  imports Main "HOL-Library.Word"
begin

text \<open>
  What every component of the development shares.

  \<^item> Machine integers. Bytes are \<^typ>\<open>8 word\<close>, unsigned fields are words of their width.
    A C variable of type \<open>int64_t\<close> or \<open>int32_t\<close> that only takes part in additions,
    multiplications and arithmetic shifts is an \<^typ>\<open>int\<close> whose every assignment goes through
    \<open>i64\<close> or \<open>i32\<close>, the two's complement wrap-around at that width. The wrap-around is a ring
    homomorphism, so wrapping once per assignment is wrapping at every operator. The bounds
    theorems of the components show that no wrap-around takes place on the inputs the code is
    specified for, which is what makes the C code free of signed overflow there.
  \<^item> The value of a little-endian byte string (\<open>le_bytes\<close>) and of its 21-bit and 26/25-bit
    digits (\<open>digit\<close>).
  \<^item> Intervals of integers, the abstract domain with which \<open>Limbs\<close> bounds the intermediate
    results of the straight-line arithmetic.
  \<^item> The collections \<open>wrap_simps\<close> (removing wrap-arounds) and \<open>ivl_intros\<close> (interval
    membership).
\<close>

unbundle bit_operations_syntax

named_theorems wrap_simps \<open>removal of wrap-arounds\<close>
named_theorems ivl_intros \<open>membership in computed intervals\<close>

type_synonym byte = "8 word"
type_synonym u16 = "16 word"
type_synonym u32 = "32 word"
type_synonym u64 = "64 word"
type_synonym bytes = "byte list"

section \<open>Signed integers of a fixed width\<close>

definition i64 :: "int \<Rightarrow> int" where
  "i64 x = signed_take_bit 63 x"

definition i32 :: "int \<Rightarrow> int" where
  "i32 x = signed_take_bit 31 x"

lemma i64_id [wrap_simps]:
  "- 9223372036854775808 \<le> x \<Longrightarrow> x \<le> 9223372036854775807 \<Longrightarrow> i64 x = x"
  by (simp add: i64_def signed_take_bit_int_eq_self_iff)

lemma i32_id [wrap_simps]:
  "- 2147483648 \<le> x \<Longrightarrow> x \<le> 2147483647 \<Longrightarrow> i32 x = x"
  by (simp add: i32_def signed_take_bit_int_eq_self_iff)

section \<open>Sums over lists and digits of integers\<close>

text \<open>The \<open>w\<close>-bit digit of \<open>v\<close> that starts at bit \<open>p\<close>.\<close>

definition digit :: "nat \<Rightarrow> nat \<Rightarrow> int \<Rightarrow> int" where
  "digit p w v = v div 2 ^ p mod 2 ^ w"

lemma int_div_less: "x div b < a" if "x < a * b" "0 < b" for a b x :: int
proof (rule ccontr)
  assume "\<not> x div b < a"
  then have "a * b \<le> x div b * b" using that(2) by (intro mult_right_mono) auto
  also have "\<dots> \<le> x" using that(2) by (simp add: minus_mod_eq_div_mult [symmetric])
  finally show False using that(1) by simp
qed

lemma abs_add_bound: "\<bar>x\<bar> \<le> K \<Longrightarrow> \<bar>y\<bar> \<le> L \<Longrightarrow> \<bar>x + y\<bar> \<le> K + L" for x y K L :: int
  by simp

lemma abs_mult_bound: "\<bar>x\<bar> \<le> K \<Longrightarrow> \<bar>y\<bar> \<le> L \<Longrightarrow> \<bar>x * y\<bar> \<le> K * L" for x y K L :: int
  by (simp add: abs_mult mult_mono)

lemma digit_bounds: "0 \<le> digit p w v" "digit p w v < 2 ^ w"
  by (simp_all add: digit_def)

lemma digit_split: "digit p (w + u) v = digit p w v + 2 ^ w * digit (p + w) u v"
proof -
  have "v div 2 ^ p mod (2 ^ w * 2 ^ u) = v div 2 ^ p mod 2 ^ w + 2 ^ w * (v div 2 ^ p div 2 ^ w mod 2 ^ u)"
    by (simp add: mod_mult2_eq add.commute zmod_zmult2_eq)
  then show ?thesis
    by (simp add: digit_def power_add div_mult2_eq zdiv_zmult2_eq)
qed

lemma digit_digit:
  assumes "q + u \<le> w"
  shows "digit q u (digit p w v) = digit (p + q) u v"
proof -
  have "take_bit u (drop_bit q (take_bit w (drop_bit p v))) = take_bit u (drop_bit (p + q) v)"
    using assms by (intro bit_eqI) (auto simp: bit_simps ac_simps)
  then show ?thesis
    by (simp add: digit_def take_bit_eq_mod drop_bit_eq_div)
qed

lemma digit_0: "0 \<le> v \<Longrightarrow> v < 2 ^ w \<Longrightarrow> digit 0 w v = v"
  by (simp add: digit_def)

text \<open>The value of a byte string, least significant byte first.\<close>

primrec le_bytes :: "bytes \<Rightarrow> int" where
  "le_bytes [] = 0"
| "le_bytes (b # bs) = uint b + 256 * le_bytes bs"

lemma le_bytes_nonneg [simp]: "0 \<le> le_bytes bs"
  by (induction bs) auto

lemma le_bytes_append: "le_bytes (xs @ ys) = le_bytes xs + 256 ^ length xs * le_bytes ys"
  by (induction xs) (auto simp: algebra_simps)

lemma le_bytes_less: "le_bytes bs < 256 ^ length bs"
proof (induction bs)
  case (Cons b bs)
  have "uint b < 256" using uint_lt2p [of b] by simp
  with Cons show ?case by simp
qed simp

lemma le_bytes_drop: "le_bytes (drop n bs) = le_bytes bs div 256 ^ n"
proof (induction bs arbitrary: n)
  case (Cons b bs)
  have b: "0 \<le> uint b" "uint b < 256" using uint_lt2p [of b] by simp_all
  show ?case
  proof (cases n)
    case (Suc m)
    have "(uint b + 256 * le_bytes bs) div (256 * 256 ^ m) = (uint b + 256 * le_bytes bs) div 256 div 256 ^ m"
      by (simp add: zdiv_zmult2_eq)
    also have "(uint b + 256 * le_bytes bs) div 256 = le_bytes bs" using b by simp
    finally show ?thesis using Suc Cons.IH [of m] by simp
  qed simp
qed simp

lemma le_bytes_take: "le_bytes (take n bs) = le_bytes bs mod 256 ^ n"
proof -
  consider "n \<le> length bs" | "length bs < n" by linarith
  then show ?thesis
  proof cases
    case 1
    have "le_bytes bs = le_bytes (take n bs) + 256 ^ n * le_bytes (drop n bs)"
      using le_bytes_append [of "take n bs" "drop n bs"] 1 by simp
    moreover have "le_bytes (take n bs) < 256 ^ n"
      using le_bytes_less [of "take n bs"] 1 by simp
    ultimately show ?thesis by simp
  next
    case 2
    have "(256::int) ^ length bs \<le> 256 ^ n" using 2 by simp
    then have "le_bytes bs < 256 ^ n" using le_bytes_less [of bs] by linarith
    with 2 show ?thesis by simp
  qed
qed

lemma le_bytes_inj: "length xs = length ys \<Longrightarrow> le_bytes xs = le_bytes ys \<Longrightarrow> xs = ys"
proof (induction xs ys rule: list_induct2)
  case (Cons x xs y ys)
  have "uint x < 256" "uint y < 256" using uint_lt2p [of x] uint_lt2p [of y] by simp_all
  then have "(uint z + 256 * le_bytes zs) mod 256 = uint z" "(uint z + 256 * le_bytes zs) div 256 = le_bytes zs"
    if "z = x \<or> z = y" for z zs using that by auto
  with Cons.prems have "uint x = uint y \<and> le_bytes xs = le_bytes ys" by (metis le_bytes.simps(2))
  with Cons.IH show ?case by (simp add: word_uint_eq_iff)
qed simp

section \<open>Intervals\<close>

type_synonym ivl = "int \<times> int"

definition in_ivl :: "int \<Rightarrow> ivl \<Rightarrow> bool" where
  "in_ivl x I \<longleftrightarrow> fst I \<le> x \<and> x \<le> snd I"

abbreviation in_ivls :: "int list \<Rightarrow> ivl list \<Rightarrow> bool" where
  "in_ivls \<equiv> list_all2 in_ivl"

definition iadd :: "ivl \<Rightarrow> ivl \<Rightarrow> ivl" where
  "iadd I J = (fst I + fst J, snd I + snd J)"

definition isub :: "ivl \<Rightarrow> ivl \<Rightarrow> ivl" where
  "isub I J = (fst I - snd J, snd I - fst J)"

definition iscale :: "int \<Rightarrow> ivl \<Rightarrow> ivl" where
  "iscale c I = (if 0 \<le> c then (fst I * c, snd I * c) else (snd I * c, fst I * c))"

definition ishift :: "int \<Rightarrow> ivl \<Rightarrow> ivl" where
  "ishift m I = (fst I div m, snd I div m)"

definition fits64 :: "ivl \<Rightarrow> bool" where
  "fits64 I \<longleftrightarrow> - 9223372036854775808 \<le> fst I \<and> snd I \<le> 9223372036854775807"

definition fits32 :: "ivl \<Rightarrow> bool" where
  "fits32 I \<longleftrightarrow> - 2147483648 \<le> fst I \<and> snd I \<le> 2147483647"

lemma in_iadd [ivl_intros]: "in_ivl x I \<Longrightarrow> in_ivl y J \<Longrightarrow> in_ivl (x + y) (iadd I J)"
  by (auto simp: in_ivl_def iadd_def)

lemma in_isub [ivl_intros]: "in_ivl x I \<Longrightarrow> in_ivl y J \<Longrightarrow> in_ivl (x - y) (isub I J)"
  by (auto simp: in_ivl_def isub_def)

lemma in_iscale [ivl_intros]: "in_ivl x I \<Longrightarrow> in_ivl (x * c) (iscale c I)"
  by (auto simp: in_ivl_def iscale_def mult_right_mono mult_right_mono_neg)

lemma in_ishift [ivl_intros]: "0 < m \<Longrightarrow> in_ivl x I \<Longrightarrow> in_ivl (x div m) (ishift m I)"
  by (auto simp: in_ivl_def ishift_def zdiv_mono1)

lemma in_ivl_const [ivl_intros]: "in_ivl x (x, x)"
  by (simp add: in_ivl_def)

lemma i64_in [wrap_simps]: "in_ivl x I \<Longrightarrow> fits64 I \<Longrightarrow> i64 x = x"
  by (rule i64_id) (auto simp: in_ivl_def fits64_def)

lemma i32_in [wrap_simps]: "in_ivl x I \<Longrightarrow> fits32 I \<Longrightarrow> i32 x = x"
  by (rule i32_id) (auto simp: in_ivl_def fits32_def)

lemma in_ivls_length: "in_ivls s B \<Longrightarrow> length s = length B"
  by (rule list_all2_lengthD)

lemma in_ivls_nth: "in_ivls s B \<Longrightarrow> i < length B \<Longrightarrow> in_ivl (s ! i) (B ! i)"
  by (simp add: list_all2_conv_all_nth)

lemma in_ivls_update: "in_ivls s B \<Longrightarrow> in_ivl x I \<Longrightarrow> in_ivls (s[i := x]) (B[i := I])"
  by (rule list_all2_update_cong) auto

section \<open>Words as numbers\<close>

lemma unat_less_32: "unat x < 2 ^ 32" for x :: u32
  using unsigned_less [of x] by simp

lemma unat_less_64: "unat x < 2 ^ 64" for x :: u64
  using unsigned_less [of x] by simp

lemma unat_ucast_up: "unat (ucast r :: u64) = unat r" for r :: u32
  using unat_less_32 [of r] by (simp add: unsigned_ucast_eq take_bit_nat_eq_self_iff)

lemma unat_low32: "unat (ucast c :: u32) = unat c mod 2 ^ 32" for c :: u64
  by (simp add: unsigned_ucast_eq take_bit_eq_mod)

end
