(* ===== verification/Limbs.thy ===== *)
theory Limbs
  imports Prelude
begin

text \<open>
  Straight-line arithmetic on arrays of limbs. The functions of
  \<^verbatim>\<open>src/src/base/tools/cryptonote/crypto-ops.c\<close> end in long sequences of two kinds of statement
  groups: carries between neighbouring limbs and folds of a high limb into lower ones. A component
  names these groups by an operation type; this theory runs a sequence of operations on the limbs
  (\<open>run_ops\<close>), runs an abstract version of it that may fail (\<open>orun\<close>), and states, as the locale
  \<open>limb_machine\<close>, what the operations of a component promise: an abstract run over intervals
  that succeeds bounds the limbs and shows that nothing overflows, and the value the limbs stand for
  is kept modulo the component's modulus. \<open>Scalar\<close> interprets the locale for the scalars modulo
  the group order, \<open>Field\<close> for the field modulo \<open>2 ^ 255 - 19\<close>.
\<close>

primrec run_ops :: "('op \<Rightarrow> 's \<Rightarrow> 's) \<Rightarrow> 'op list \<Rightarrow> 's \<Rightarrow> 's" where
  "run_ops f [] s = s"
| "run_ops f (c # cs) s = run_ops f cs (f c s)"

primrec orun :: "('op \<Rightarrow> 'a \<Rightarrow> 'a option) \<Rightarrow> 'op list \<Rightarrow> 'a \<Rightarrow> 'a option" where
  "orun f [] a = Some a"
| "orun f (c # cs) a = (case f c a of None \<Rightarrow> None | Some b \<Rightarrow> orun f cs b)"

lemma run_ops_append: "run_ops f (cs @ ds) s = run_ops f ds (run_ops f cs s)"
  by (induction cs arbitrary: s) auto

lemma orun_append: "orun f (cs @ ds) a = (case orun f cs a of None \<Rightarrow> None | Some b \<Rightarrow> orun f ds b)"
  by (induction cs arbitrary: a) (auto split: option.splits)

locale limb_machine =
  fixes step :: "'op \<Rightarrow> int list \<Rightarrow> int list"
    and astep :: "'op \<Rightarrow> ivl list \<Rightarrow> ivl list option"
    and live :: "'op \<Rightarrow> nat \<Rightarrow> nat option"
    and val :: "nat \<Rightarrow> int list \<Rightarrow> int"
    and modulus :: int
  assumes step_sound: "in_ivls s B \<Longrightarrow> astep c B = Some B' \<Longrightarrow> in_ivls (step c s) B'"
    and step_val: "in_ivls s B \<Longrightarrow> astep c B = Some B' \<Longrightarrow> live c n = Some n' \<Longrightarrow>
      modulus dvd val n' (step c s) - val n s"
begin

lemma run_sound: "in_ivls s B \<Longrightarrow> orun astep cs B = Some B' \<Longrightarrow> in_ivls (run_ops step cs s) B'"
  by (induction cs arbitrary: s B) (auto dest: step_sound split: option.splits)

lemma run_val:
  "in_ivls s B \<Longrightarrow> orun astep cs B = Some B' \<Longrightarrow> orun live cs n = Some n' \<Longrightarrow>
    modulus dvd val n' (run_ops step cs s) - val n s"
proof (induction cs arbitrary: s B n)
  case (Cons c cs)
  obtain B1 where B1: "astep c B = Some B1" "orun astep cs B1 = Some B'"
    using Cons.prems by (auto split: option.splits)
  obtain n1 where n1: "live c n = Some n1" "orun live cs n1 = Some n'"
    using Cons.prems by (auto split: option.splits)
  have "modulus dvd val n' (run_ops step cs (step c s)) - val n1 (step c s)"
    using Cons.IH [OF step_sound [OF Cons.prems(1) B1(1)] B1(2) n1(2)] .
  moreover have "modulus dvd val n1 (step c s) - val n s"
    by (rule step_val [OF Cons.prems(1) B1(1) n1(1)])
  ultimately have "modulus dvd (val n' (run_ops step cs (step c s)) - val n1 (step c s))
      + (val n1 (step c s) - val n s)"
    by (rule dvd_add)
  then show ?case by simp
qed simp

lemma run_mod:
  "in_ivls s B \<Longrightarrow> orun astep cs B = Some B' \<Longrightarrow> orun live cs n = Some n' \<Longrightarrow>
    val n' (run_ops step cs s) mod modulus = val n s mod modulus"
  using run_val [of s B cs B' n n'] by (simp add: mod_eq_dvd_iff)

end

section \<open>Sums of limbs\<close>

text \<open>The value of the first \<open>n\<close> limbs, where limb \<open>i\<close> has weight \<open>2 ^ w i\<close>.\<close>

primrec limb_sum :: "(nat \<Rightarrow> nat) \<Rightarrow> nat \<Rightarrow> int list \<Rightarrow> int" where
  "limb_sum w 0 s = 0"
| "limb_sum w (Suc n) s = limb_sum w n s + s ! n * 2 ^ w n"

lemma limb_sum_list: "limb_sum w n s = (\<Sum>i\<leftarrow>[0..<n]. s ! i * 2 ^ w i)"
  by (induction n) auto

lemma limb_sum_update:
  "j < n \<Longrightarrow> j < length s \<Longrightarrow> limb_sum w n (s[j := x]) = limb_sum w n s + (x - s ! j) * 2 ^ w j"
proof (induction n)
  case (Suc n)
  have old: "limb_sum w m (s[j := x]) = limb_sum w m s" if "m \<le> j" for m
    using that by (induction m) auto
  show ?case
  proof (cases "j = n")
    case True
    then show ?thesis using Suc.prems old [of n] by (simp add: algebra_simps)
  next
    case False
    then show ?thesis using Suc by simp
  qed
qed simp

lemma limb_sum_update_ge: "n \<le> j \<Longrightarrow> limb_sum w n (s[j := x]) = limb_sum w n s"
  by (induction n) auto

text \<open>Digits of one integer add up to that integer.\<close>

lemma limb_sum_digits:
  assumes "\<And>i. i < n \<Longrightarrow> s ! i = digit (w i) (w (Suc i) - w i) v"
    and "\<And>i. i < n \<Longrightarrow> w i \<le> w (Suc i)" and "w 0 = 0"
  shows "limb_sum w n s = v mod 2 ^ w n"
  using assms
proof (induction n)
  case (Suc n)
  have "limb_sum w (Suc n) s = digit 0 (w n) v + 2 ^ w n * digit (w n) (w (Suc n) - w n) v"
    using Suc by (simp add: digit_def)
  also have "\<dots> = digit 0 (w n + (w (Suc n) - w n)) v"
    by (simp only: digit_split add_0)
  finally show ?case using Suc.prems(2) [of n] by (simp add: digit_def)
qed simp

text \<open>Limbs within their range are the digits of their value.\<close>

lemma limb_sum_range:
  assumes "\<And>i. i < n \<Longrightarrow> 0 \<le> s ! i \<and> s ! i < 2 ^ (w (Suc i) - w i)"
    and "\<And>i. i < n \<Longrightarrow> w i \<le> w (Suc i)" and "w 0 = 0"
  shows "0 \<le> limb_sum w n s \<and> limb_sum w n s < 2 ^ w n"
  using assms
proof (induction n)
  case (Suc n)
  let ?v = "limb_sum w n s" and ?k = "w (Suc n) - w n"
  have IH: "0 \<le> ?v" "?v < 2 ^ w n" using Suc by auto
  have top: "0 \<le> s ! n" "s ! n < 2 ^ ?k" "w n \<le> w (Suc n)" using Suc.prems by auto
  have "?v + s ! n * 2 ^ w n \<le> (2 ^ w n - 1) + (2 ^ ?k - 1) * 2 ^ w n"
    using IH top by (intro add_mono mult_right_mono) auto
  also have "\<dots> < 2 ^ ?k * 2 ^ w n" by (simp add: algebra_simps)
  also have "\<dots> = 2 ^ w (Suc n)" using top(3) by (simp add: power_add [symmetric])
  finally show ?case using IH top by simp
qed simp

lemma limb_sum_digit:
  assumes "\<And>i. i < n \<Longrightarrow> 0 \<le> s ! i \<and> s ! i < 2 ^ (w (Suc i) - w i)"
    and "\<And>i j. i \<le> j \<Longrightarrow> j \<le> n \<Longrightarrow> w i \<le> w j" and "w 0 = 0" and "i < n"
  shows "digit (w i) (w (Suc i) - w i) (limb_sum w n s) = s ! i"
  using assms
proof (induction n)
  case (Suc n)
  let ?v = "limb_sum w n s"
  have v: "0 \<le> ?v" "?v < 2 ^ w n" using limb_sum_range [of n s w] Suc.prems by auto
  show ?case
  proof (cases "i = n")
    case True
    then show ?thesis using v Suc.prems(1) [of n] by (simp add: digit_def)
  next
    case False
    then have i: "w i + (w (Suc i) - w i) \<le> w n" "i < n" using Suc.prems by auto
    have "digit 0 (w n) (limb_sum w (Suc n) s) = ?v" using v by (simp add: digit_def)
    then have "digit (w i) (w (Suc i) - w i) (limb_sum w (Suc n) s) = digit (w i) (w (Suc i) - w i) ?v"
      using digit_digit [OF i(1), of 0 "limb_sum w (Suc n) s"] by simp
    then show ?thesis using Suc.IH Suc.prems i(2) by simp
  qed
qed simp

lemma le_bytes_limb_sum: "le_bytes bs = limb_sum (\<lambda>i. 8 * i) (length bs) (map uint bs)"
proof (induction bs rule: rev_induct)
  case (snoc b bs)
  have "limb_sum w n (xs @ ys) = limb_sum w n xs" if "n \<le> length xs" for w n xs ys
    using that by (induction n) (auto simp: nth_append)
  with snoc show ?case by (simp add: le_bytes_append nth_append power_mult mult.commute [of "uint b"])
qed simp

lemma le_bytes_digits:
  assumes "\<And>j. j < length bs \<Longrightarrow> uint (bs ! j) = digit (8 * j) 8 v"
  shows "le_bytes bs = v mod 256 ^ length bs"
proof -
  have "limb_sum (\<lambda>i. 8 * i) (length bs) (map uint bs) = v mod 2 ^ (8 * length bs)"
    using assms by (intro limb_sum_digits) auto
  then show ?thesis by (simp add: le_bytes_limb_sum power_mult)
qed

end
