(* ===== verification/Loads.thy ===== *)
theory Loads
  imports Limbs
begin

text \<open>
  The loads of 3 and 4 little-endian bytes of
  \<^verbatim>\<open>src/src/base/tools/cryptonote/crypto-ops.c\<close>, which start every function on byte strings,
  and the lemmas that read the masked and shifted loads as digits of the byte string's value and the
  bytes that the stores cut out of one or two limbs as its 8 bit digits.
\<close>

definition load_3 :: "bytes \<Rightarrow> u64" where
  "load_3 p = ucast (p ! 0) OR push_bit 8 (ucast (p ! 1)) OR push_bit 16 (ucast (p ! 2))"

definition load_4 :: "bytes \<Rightarrow> u64" where
  "load_4 p = ucast (p ! 0) OR push_bit 8 (ucast (p ! 1)) OR push_bit 16 (ucast (p ! 2))
     OR push_bit 24 (ucast (p ! 3))"

section \<open>Loads as digits\<close>

lemma or_push_bit: "0 \<le> a \<Longrightarrow> a < 2 ^ n \<Longrightarrow> a OR push_bit n b = a + 2 ^ n * (b :: int)"
  using concat_bit_eq [of n a b] by (simp add: concat_bit_def push_bit_eq_mult take_bit_int_eq_self mult.commute)

lemma byte_less: "uint (b :: byte) < 256"
  using uint_lt2p [of b] by simp

lemma uint_push_byte:
  assumes "n \<le> 56"
  shows "uint (push_bit n (ucast (b :: byte)) :: u64) = push_bit n (uint b)"
proof -
  have "uint b * 2 ^ n < 256 * 2 ^ n" using byte_less [of b] by simp
  also have "\<dots> \<le> 256 * 2 ^ 56" using assms by (intro mult_left_mono power_increasing) auto
  finally have "take_bit 64 (push_bit n (uint b)) = push_bit n (uint b)"
    by (simp add: push_bit_eq_mult take_bit_int_eq_self)
  moreover have "uint (ucast b :: u64) = uint b"
    using byte_less [of b] by (simp add: unsigned_ucast_eq take_bit_int_eq_self)
  ultimately show ?thesis by (simp only: unsigned_push_bit_eq) simp
qed

lemma uint_load_4:
  assumes "4 \<le> length p"
  shows "uint (load_4 p) = le_bytes (take 4 p)"
proof -
  obtain a b c d r where p: "p = a # b # c # d # r"
    using assms by (auto simp: Suc_le_length_iff eval_nat_numeral)
  have *: "uint (ucast x :: u64) = uint x" for x :: byte
    using uint_push_byte [of 0 x] by simp
  have "uint (load_4 p) = uint a OR push_bit 8 (uint b) OR push_bit 16 (uint c) OR push_bit 24 (uint d)"
    by (simp add: p load_4_def unsigned_or_eq uint_push_byte *)
  also have "\<dots> = uint a OR push_bit 8 (uint b OR push_bit 8 (uint c OR push_bit 8 (uint d)))"
    by (simp add: push_bit_or)
  also have "\<dots> = le_bytes (take 4 p)"
    using byte_less [of a] byte_less [of b] byte_less [of c] byte_less [of d]
    by (simp add: p or_push_bit)
  finally show ?thesis .
qed

lemma uint_load_3:
  assumes "3 \<le> length p"
  shows "uint (load_3 p) = le_bytes (take 3 p)"
proof -
  obtain a b c r where p: "p = a # b # c # r"
    using assms by (auto simp: Suc_le_length_iff eval_nat_numeral)
  have *: "uint (ucast x :: u64) = uint x" for x :: byte
    using uint_push_byte [of 0 x] by simp
  have "uint (load_3 p) = uint a OR push_bit 8 (uint b) OR push_bit 16 (uint c)"
    by (simp add: p load_3_def unsigned_or_eq uint_push_byte *)
  also have "\<dots> = uint a OR push_bit 8 (uint b OR push_bit 8 (uint c))"
    by (simp add: push_bit_or)
  also have "\<dots> = le_bytes (take 3 p)"
    using byte_less [of a] byte_less [of b] byte_less [of c]
    by (simp add: p or_push_bit)
  finally show ?thesis .
qed

lemma take_drop_digit: "le_bytes (take k (drop j p)) = digit (8 * j) (8 * k) (le_bytes p)"
  by (simp add: le_bytes_take le_bytes_drop digit_def power_mult)

lemma sint_small: "uint (x :: u64) < 2 ^ 63 \<Longrightarrow> sint x = uint x"
  using order_trans [OF _ uint_ge_0 [of x], of "- (2 ^ 63)"]
  by (simp add: sint_uint signed_take_bit_int_eq_self_iff)

lemma uint_drop_bit_u64: "uint (drop_bit r (x :: u64)) = drop_bit r (uint x)"
  using uint_lt2p [of x] by (simp add: unsigned_drop_bit_eq take_bit_int_eq_self)

lemma sint_mask21:
  assumes "r + 21 \<le> n" and "uint x = digit p n v"
  shows "sint (2097151 AND drop_bit r (x :: u64)) = digit (p + r) 21 v"
proof -
  have m: "(2097151 :: u64) = mask 21" by (simp add: mask_eq_exp_minus_1)
  have "uint (2097151 AND drop_bit r x) = uint (take_bit 21 (drop_bit r x))"
    unfolding m by (simp only: take_bit_eq_mask and.commute)
  also have "\<dots> = take_bit 21 (drop_bit r (uint x))"
    by (simp add: unsigned_take_bit_eq uint_drop_bit_u64)
  also have "\<dots> = digit r 21 (uint x)"
    by (simp add: digit_def take_bit_eq_mod drop_bit_eq_div)
  also have "\<dots> = digit (p + r) 21 v"
    using assms by (simp add: digit_digit)
  finally have *: "uint (2097151 AND drop_bit r x) = digit (p + r) 21 v" .
  then show ?thesis using digit_bounds(2) [of "p + r" 21 v] by (simp add: sint_small)
qed

lemma sint_shifted:
  assumes "r + k = n" and "n \<le> 32" and "uint x = digit p n v"
  shows "sint (drop_bit r (x :: u64)) = digit (p + r) k v"
proof -
  have "digit p n v < 2 ^ n" by (rule digit_bounds)
  also have "\<dots> \<le> 2 ^ 32" using assms(2) by (intro power_increasing) auto
  finally have small: "uint x < 2 ^ 32" using assms by simp
  have "digit r k (uint x) = uint x div 2 ^ r"
  proof -
    have "uint x < 2 ^ (r + k)" using digit_bounds(2) [of p n v] assms by simp
    then have "uint x div 2 ^ r < 2 ^ k"
      by (intro int_div_less) (simp_all add: power_add mult.commute)
    moreover have "0 \<le> uint x div 2 ^ r" by (simp add: pos_imp_zdiv_nonneg_iff)
    ultimately show ?thesis by (simp add: digit_def)
  qed
  moreover have div: "uint (drop_bit r x) = uint x div 2 ^ r"
    unfolding uint_drop_bit_u64 by (rule drop_bit_eq_div)
  moreover have "digit r k (uint x) = digit (p + r) k v"
    using assms(1) unfolding assms(3) by (intro digit_digit) simp
  ultimately have *: "uint (drop_bit r x) = digit (p + r) k v" by simp
  have "uint (drop_bit r x) \<le> uint x"
    unfolding div using zdiv_mono2 [of "uint x" 1 "2 ^ r"] by simp
  with small have "uint (drop_bit r x) < 2 ^ 63" by simp
  with * show ?thesis by (simp add: sint_small)
qed

lemma load_digits:
  "j + 3 \<le> length p \<Longrightarrow> uint (load_3 (drop j p)) = digit (8 * j) 24 (le_bytes p)"
  "j + 4 \<le> length p \<Longrightarrow> uint (load_4 (drop j p)) = digit (8 * j) 32 (le_bytes p)"
  using take_drop_digit [of 3 j p] take_drop_digit [of 4 j p]
  by (simp_all add: uint_load_3 uint_load_4)

lemmas limb_loads =
  sint_mask21 [OF _ load_digits(1)] sint_mask21 [OF _ load_digits(2)]
  sint_mask21 [where r = 0, simplified, OF _ load_digits(1)]
  sint_mask21 [where r = 0, simplified, OF _ load_digits(1) [where j = 0, simplified]]
  sint_shifted [where n = 32, OF _ _ load_digits(2)]

lemma digit_drop: "digit q w (le_bytes (drop j p)) = digit (8 * j + q) w (le_bytes p)"
proof -
  have "(2::int) ^ (8 * j + q) = 256 ^ j * 2 ^ q" by (simp add: power_add power_mult)
  then show ?thesis by (simp add: digit_def le_bytes_drop zdiv_zmult2_eq)
qed

lemma upt_12: "[0..<12] = [0, 1, 2, 3, 4, 5, 6, 7, 8, 9, 10, 11]"
  and upt_24: "[0..<24] = [0, 1, 2, 3, 4, 5, 6, 7, 8, 9, 10, 11, 12, 13, 14, 15, 16, 17, 18, 19, 20, 21, 22, 23]"
  and upt_32: "[0..<32] = [0, 1, 2, 3, 4, 5, 6, 7, 8, 9, 10, 11, 12, 13, 14, 15, 16, 17, 18, 19, 20, 21, 22, 23,
    24, 25, 26, 27, 28, 29, 30, 31]"
  by (simp_all add: upt_rec)

section \<open>Bytes cut out of limbs\<close>

lemma uint_byte_of_int: "uint (word_of_int x :: byte) = x mod 256"
  by (simp add: uint_word_of_int)

lemma store_inside: "uint (word_of_int (drop_bit r x) :: byte) = digit r 8 x"
  by (simp add: uint_byte_of_int digit_def drop_bit_eq_div)

lemma store_straddle:
  assumes "t \<le> 8" and "0 \<le> x" and "x < 2 ^ (r + t)"
  shows "uint (word_of_int (drop_bit r x OR push_bit t y) :: byte) = digit r t x + 2 ^ t * digit 0 (8 - t) y"
proof -
  have lt: "x div 2 ^ r < 2 ^ t" using assms(3) by (intro int_div_less) (simp_all add: power_add mult.commute)
  have ge: "0 \<le> x div 2 ^ r" using assms(2) by (simp add: pos_imp_zdiv_nonneg_iff)
  let ?z = "x div 2 ^ r + 2 ^ t * y"
  have "drop_bit r x OR push_bit t y = ?z"
    using lt ge by (simp only: drop_bit_eq_div or_push_bit)
  then have "uint (word_of_int (drop_bit r x OR push_bit t y) :: byte) = digit 0 (t + (8 - t)) ?z"
    using assms(1) by (simp only: uint_byte_of_int digit_def) simp
  also have "\<dots> = digit 0 t ?z + 2 ^ t * digit (0 + t) (8 - t) ?z"
    by (rule digit_split)
  also have "\<dots> = digit r t x + 2 ^ t * digit 0 (8 - t) y"
    using lt ge by (simp add: digit_def)
  finally show ?thesis .
qed


lemma store_inside_digit:
  "x = digit p w v \<Longrightarrow> r + 8 \<le> w \<Longrightarrow> uint (word_of_int (drop_bit r x) :: byte) = digit (p + r) 8 v"
  by (simp only: store_inside digit_digit)

lemma store_straddle_digit:
  assumes "x = digit p w v" and "y = digit q u v"
    and "q = p + w" and "r + t = w" and "t \<le> 8" and "8 - t \<le> u"
  shows "uint (word_of_int (drop_bit r x OR push_bit t y) :: byte) = digit (p + r) 8 v"
proof -
  have "uint (word_of_int (drop_bit r x OR push_bit t y) :: byte) = digit r t x + 2 ^ t * digit 0 (8 - t) y"
    using assms digit_bounds [of p w v] by (intro store_straddle) auto
  also have "\<dots> = digit (p + r) t v + 2 ^ t * digit (p + r + t) (8 - t) v"
    using assms by (simp add: digit_digit ac_simps)
  also have "\<dots> = digit (p + r) 8 v"
    using assms(5) digit_split [of "p + r" t "8 - t" v] by simp
  finally show ?thesis .
qed

section \<open>The test for a nonzero byte\<close>

lemma foldr_or_eq_0: "foldr (OR) bs (0 :: byte) = 0 \<longleftrightarrow> le_bytes bs = 0"
proof (induction bs)
  case (Cons b bs)
  have "b OR x = 0 \<longleftrightarrow> b = 0 \<and> x = 0" for x :: byte
    by (auto simp: bit_eq_iff bit_simps)
  moreover have "uint b = 0 \<longleftrightarrow> b = 0" by (simp add: uint_0_iff)
  moreover have "uint b + 256 * le_bytes bs = 0 \<longleftrightarrow> uint b = 0 \<and> le_bytes bs = 0"
    using le_bytes_nonneg [of bs] uint_ge_0 [of b] by linarith
  ultimately show ?case using Cons by simp
qed simp

lemma or_bytes_nonzero:
  "drop_bit 8 (uint (foldr (OR) bs (0 :: byte)) - 1) + 1 = (if le_bytes bs = 0 then 0 else 1)"
proof -
  define b where "b = foldr (OR) bs (0 :: byte)"
  have "b = 0 \<longleftrightarrow> le_bytes bs = 0" unfolding b_def by (rule foldr_or_eq_0)
  moreover have "b \<noteq> 0 \<Longrightarrow> 1 \<le> uint b"
    using uint_ge_0 [of b] uint_0_iff [of b] by linarith
  ultimately show ?thesis
    using byte_less [of b] by (auto simp: b_def [symmetric] drop_bit_eq_div)
qed

end
