(* ===== verification/Scalar.thy ===== *)
theory Scalar
  imports Loads
begin

text \<open>
  The arithmetic of scalars modulo the order of the Ed25519 base point, from
  \<^verbatim>\<open>src/src/base/tools/cryptonote/crypto-ops.c\<close> (\<open>sc_0\<close>, \<open>sc_reduce\<close>,
  \<open>sc_reduce32\<close>, \<open>sc_add\<close>, \<open>sc_sub\<close>, \<open>sc_mul\<close>, \<open>sc_muladd\<close>, \<open>sc_mulsub\<close>,
  \<open>sc_check\<close>, \<open>sc_isnonzero\<close>). The miner uses them to derive the keys and the signature of
  the blocks it mines on its own node.

  A scalar is 32 bytes, least significant first. Every function loads it into limbs of 21 bits,
  held in \<open>int64_t\<close> variables \<open>s0\<close>, \<open>s1\<close>, \<open>\<dots>\<close> (here entry \<open>i\<close> of a list is
  \<open>si\<close>), computes on the limbs and stores 32 bytes again. After the limbs of the sum or the
  product are computed, each function is a sequence of four groups of statements:
  \<^item> \<open>Fold n\<close>: the six statements \<^verbatim>\<open>s(n-12) += sn * 666643; ... s(n-7) -= sn * 683901;\<close>
  \<^item> \<open>Zero n\<close>: \<^verbatim>\<open>sn = 0;\<close>
  \<^item> \<open>Round n\<close>: \<^verbatim>\<open>carryn = (sn + (1<<20)) >> 21; s(n+1) += carryn; sn -= carryn << 21;\<close>
  \<^item> \<open>Floor n\<close>: \<^verbatim>\<open>carryn = sn >> 21; s(n+1) += carryn; sn -= carryn << 21;\<close>

  A limb that was folded and not set to 0 keeps its stale value, as in the code; \<open>sc_live\<close>
  tracks how many limbs still count.
\<close>

section \<open>Definitions\<close>

text \<open>The twelve limbs of a 32 byte scalar and the 24 limbs of a 64 byte one.\<close>

definition sc_load :: "bytes \<Rightarrow> int list" where
  "sc_load p = [
    sint (2097151 AND load_3 p),
    sint (2097151 AND drop_bit 5 (load_4 (drop 2 p))),
    sint (2097151 AND drop_bit 2 (load_3 (drop 5 p))),
    sint (2097151 AND drop_bit 7 (load_4 (drop 7 p))),
    sint (2097151 AND drop_bit 4 (load_4 (drop 10 p))),
    sint (2097151 AND drop_bit 1 (load_3 (drop 13 p))),
    sint (2097151 AND drop_bit 6 (load_4 (drop 15 p))),
    sint (2097151 AND drop_bit 3 (load_3 (drop 18 p))),
    sint (2097151 AND load_3 (drop 21 p)),
    sint (2097151 AND drop_bit 5 (load_4 (drop 23 p))),
    sint (2097151 AND drop_bit 2 (load_3 (drop 26 p))),
    sint (drop_bit 7 (load_4 (drop 28 p)))]"

definition sc_load64 :: "bytes \<Rightarrow> int list" where
  "sc_load64 p = [
    sint (2097151 AND load_3 p),
    sint (2097151 AND drop_bit 5 (load_4 (drop 2 p))),
    sint (2097151 AND drop_bit 2 (load_3 (drop 5 p))),
    sint (2097151 AND drop_bit 7 (load_4 (drop 7 p))),
    sint (2097151 AND drop_bit 4 (load_4 (drop 10 p))),
    sint (2097151 AND drop_bit 1 (load_3 (drop 13 p))),
    sint (2097151 AND drop_bit 6 (load_4 (drop 15 p))),
    sint (2097151 AND drop_bit 3 (load_3 (drop 18 p))),
    sint (2097151 AND load_3 (drop 21 p)),
    sint (2097151 AND drop_bit 5 (load_4 (drop 23 p))),
    sint (2097151 AND drop_bit 2 (load_3 (drop 26 p))),
    sint (2097151 AND drop_bit 7 (load_4 (drop 28 p))),
    sint (2097151 AND drop_bit 4 (load_4 (drop 31 p))),
    sint (2097151 AND drop_bit 1 (load_3 (drop 34 p))),
    sint (2097151 AND drop_bit 6 (load_4 (drop 36 p))),
    sint (2097151 AND drop_bit 3 (load_3 (drop 39 p))),
    sint (2097151 AND load_3 (drop 42 p)),
    sint (2097151 AND drop_bit 5 (load_4 (drop 44 p))),
    sint (2097151 AND drop_bit 2 (load_3 (drop 47 p))),
    sint (2097151 AND drop_bit 7 (load_4 (drop 49 p))),
    sint (2097151 AND drop_bit 4 (load_4 (drop 52 p))),
    sint (2097151 AND drop_bit 1 (load_3 (drop 55 p))),
    sint (2097151 AND drop_bit 6 (load_4 (drop 57 p))),
    sint (drop_bit 3 (load_4 (drop 60 p)))]"

text \<open>
  The stores at the end of every function. The assignment to an \<open>unsigned char\<close> keeps the low
  eight bits, so the width of the shifted value does not matter.
\<close>

definition sc_store :: "int list \<Rightarrow> bytes" where
  "sc_store s = [
    word_of_int (drop_bit 0 (s ! 0)),
    word_of_int (drop_bit 8 (s ! 0)),
    word_of_int (drop_bit 16 (s ! 0) OR push_bit 5 (s ! 1)),
    word_of_int (drop_bit 3 (s ! 1)),
    word_of_int (drop_bit 11 (s ! 1)),
    word_of_int (drop_bit 19 (s ! 1) OR push_bit 2 (s ! 2)),
    word_of_int (drop_bit 6 (s ! 2)),
    word_of_int (drop_bit 14 (s ! 2) OR push_bit 7 (s ! 3)),
    word_of_int (drop_bit 1 (s ! 3)),
    word_of_int (drop_bit 9 (s ! 3)),
    word_of_int (drop_bit 17 (s ! 3) OR push_bit 4 (s ! 4)),
    word_of_int (drop_bit 4 (s ! 4)),
    word_of_int (drop_bit 12 (s ! 4)),
    word_of_int (drop_bit 20 (s ! 4) OR push_bit 1 (s ! 5)),
    word_of_int (drop_bit 7 (s ! 5)),
    word_of_int (drop_bit 15 (s ! 5) OR push_bit 6 (s ! 6)),
    word_of_int (drop_bit 2 (s ! 6)),
    word_of_int (drop_bit 10 (s ! 6)),
    word_of_int (drop_bit 18 (s ! 6) OR push_bit 3 (s ! 7)),
    word_of_int (drop_bit 5 (s ! 7)),
    word_of_int (drop_bit 13 (s ! 7)),
    word_of_int (drop_bit 0 (s ! 8)),
    word_of_int (drop_bit 8 (s ! 8)),
    word_of_int (drop_bit 16 (s ! 8) OR push_bit 5 (s ! 9)),
    word_of_int (drop_bit 3 (s ! 9)),
    word_of_int (drop_bit 11 (s ! 9)),
    word_of_int (drop_bit 19 (s ! 9) OR push_bit 2 (s ! 10)),
    word_of_int (drop_bit 6 (s ! 10)),
    word_of_int (drop_bit 14 (s ! 10) OR push_bit 7 (s ! 11)),
    word_of_int (drop_bit 1 (s ! 11)),
    word_of_int (drop_bit 9 (s ! 11)),
    word_of_int (drop_bit 17 (s ! 11))]"

datatype sc_op = Fold nat | Zero nat | Round nat | Floor nat

definition sc_add_mul :: "nat \<Rightarrow> nat \<Rightarrow> int \<Rightarrow> int list \<Rightarrow> int list" where
  "sc_add_mul j n c s = s[j := i64 (s ! j + i64 (s ! n * c))]"

definition sc_sub_mul :: "nat \<Rightarrow> nat \<Rightarrow> int \<Rightarrow> int list \<Rightarrow> int list" where
  "sc_sub_mul j n c s = s[j := i64 (s ! j - i64 (s ! n * c))]"

definition sc_fold :: "nat \<Rightarrow> int list \<Rightarrow> int list" where
  "sc_fold n s0 =
     (let s1 = sc_add_mul (n - 12) n 666643 s0;
          s2 = sc_add_mul (n - 11) n 470296 s1;
          s3 = sc_add_mul (n - 10) n 654183 s2;
          s4 = sc_sub_mul (n - 9) n 997805 s3;
          s5 = sc_add_mul (n - 8) n 136657 s4
      in sc_sub_mul (n - 7) n 683901 s5)"

definition sc_carry :: "nat \<Rightarrow> int \<Rightarrow> int list \<Rightarrow> int list" where
  "sc_carry n carry s =
     (let t = s[Suc n := i64 (s ! Suc n + carry)]
      in t[n := i64 (t ! n - i64 (carry * 2097152))])"

definition sc_round :: "nat \<Rightarrow> int list \<Rightarrow> int list" where
  "sc_round n s = sc_carry n (i64 (s ! n + 1048576) div 2097152) s"

definition sc_floor :: "nat \<Rightarrow> int list \<Rightarrow> int list" where
  "sc_floor n s = sc_carry n (s ! n div 2097152) s"

fun sc_exec :: "sc_op \<Rightarrow> int list \<Rightarrow> int list" where
  "sc_exec (Fold n) s = sc_fold n s"
| "sc_exec (Zero n) s = s[n := 0]"
| "sc_exec (Round n) s = sc_round n s"
| "sc_exec (Floor n) s = sc_floor n s"

text \<open>The carries of the 24 limbs of a product, the reduction of 24 limbs to 12, the last two
  reductions by \<open>s12\<close>.\<close>

definition sc_carry_ops :: "sc_op list" where
  "sc_carry_ops = [
    Round 0, Round 2, Round 4, Round 6, Round 8, Round 10, Round 12, Round 14, Round 16, Round 18, Round 20,
    Round 22, Round 1, Round 3, Round 5, Round 7, Round 9, Round 11, Round 13, Round 15, Round 17, Round 19,
    Round 21]"

definition sc_fold_ops :: "sc_op list" where
  "sc_fold_ops = [
    Fold 23, Fold 22, Fold 21, Fold 20, Fold 19, Fold 18, Round 6, Round 8, Round 10, Round 12, Round 14,
    Round 16, Round 7, Round 9, Round 11, Round 13, Round 15, Fold 17, Fold 16, Fold 15, Fold 14, Fold 13,
    Fold 12, Zero 12]"

definition sc_first_ops :: "sc_op list" where
  "sc_first_ops = [
    Round 0, Round 2, Round 4, Round 6, Round 8, Round 10, Round 1, Round 3, Round 5, Round 7, Round 9,
    Round 11, Fold 12, Zero 12, Floor 0, Floor 1, Floor 2, Floor 3, Floor 4, Floor 5, Floor 6, Floor 7,
    Floor 8, Floor 9, Floor 10, Floor 11]"

definition sc_last_ops :: "sc_op list" where
  "sc_last_ops = [
    Fold 12, Floor 0, Floor 1, Floor 2, Floor 3, Floor 4, Floor 5, Floor 6, Floor 7, Floor 8, Floor 9,
    Floor 10]"

definition sc_0 :: bytes where
  "sc_0 = replicate 32 0"

definition sc_reduce_ops :: "sc_op list" where
  "sc_reduce_ops = sc_fold_ops @ sc_first_ops @ sc_last_ops"

text \<open>\<open>sc_reduce\<close> overwrites the first 32 of its 64 bytes in place.\<close>

definition sc_reduce :: "bytes \<Rightarrow> bytes" where
  "sc_reduce s = sc_store (run_ops sc_exec sc_reduce_ops (sc_load64 s)) @ drop 32 s"

definition sc_short_ops :: "sc_op list" where
  "sc_short_ops = sc_first_ops @ sc_last_ops"

definition sc_reduce32 :: "bytes \<Rightarrow> bytes" where
  "sc_reduce32 s = sc_store (run_ops sc_exec sc_short_ops (sc_load s @ [0]))"

definition sc_add_limbs :: "int list \<Rightarrow> int list \<Rightarrow> int list" where
  "sc_add_limbs a b = [
    i64 (a ! 0 + b ! 0),
    i64 (a ! 1 + b ! 1),
    i64 (a ! 2 + b ! 2),
    i64 (a ! 3 + b ! 3),
    i64 (a ! 4 + b ! 4),
    i64 (a ! 5 + b ! 5),
    i64 (a ! 6 + b ! 6),
    i64 (a ! 7 + b ! 7),
    i64 (a ! 8 + b ! 8),
    i64 (a ! 9 + b ! 9),
    i64 (a ! 10 + b ! 10),
    i64 (a ! 11 + b ! 11),
    0]"

definition sc_add :: "bytes \<Rightarrow> bytes \<Rightarrow> bytes" where
  "sc_add a b = sc_store (run_ops sc_exec sc_short_ops (sc_add_limbs (sc_load a) (sc_load b)))"

definition sc_sub_limbs :: "int list \<Rightarrow> int list \<Rightarrow> int list" where
  "sc_sub_limbs a b = [
    i64 (a ! 0 - b ! 0),
    i64 (a ! 1 - b ! 1),
    i64 (a ! 2 - b ! 2),
    i64 (a ! 3 - b ! 3),
    i64 (a ! 4 - b ! 4),
    i64 (a ! 5 - b ! 5),
    i64 (a ! 6 - b ! 6),
    i64 (a ! 7 - b ! 7),
    i64 (a ! 8 - b ! 8),
    i64 (a ! 9 - b ! 9),
    i64 (a ! 10 - b ! 10),
    i64 (a ! 11 - b ! 11),
    0]"

definition sc_sub :: "bytes \<Rightarrow> bytes \<Rightarrow> bytes" where
  "sc_sub a b = sc_store (run_ops sc_exec sc_short_ops (sc_sub_limbs (sc_load a) (sc_load b)))"

definition sc_mulsub_limbs :: "int list \<Rightarrow> int list \<Rightarrow> int list \<Rightarrow> int list" where
  "sc_mulsub_limbs a b c = [
    i64 (c ! 0 - a ! 0 * b ! 0),
    i64 (c ! 1 - (a ! 0 * b ! 1 + a ! 1 * b ! 0)),
    i64 (c ! 2 - (a ! 0 * b ! 2 + a ! 1 * b ! 1 + a ! 2 * b ! 0)),
    i64 (c ! 3 - (a ! 0 * b ! 3 + a ! 1 * b ! 2 + a ! 2 * b ! 1 + a ! 3 * b ! 0)),
    i64 (c ! 4 - (a ! 0 * b ! 4 + a ! 1 * b ! 3 + a ! 2 * b ! 2 + a ! 3 * b ! 1 + a ! 4 * b ! 0)),
    i64 (c ! 5 - (a ! 0 * b ! 5 + a ! 1 * b ! 4 + a ! 2 * b ! 3 + a ! 3 * b ! 2 + a ! 4 * b ! 1 + a ! 5 * b ! 0)),
    i64 (c ! 6 - (a ! 0 * b ! 6 + a ! 1 * b ! 5 + a ! 2 * b ! 4 + a ! 3 * b ! 3 + a ! 4 * b ! 2 + a ! 5 * b ! 1 + a ! 6 * b ! 0)),
    i64 (c ! 7 - (a ! 0 * b ! 7 + a ! 1 * b ! 6 + a ! 2 * b ! 5 + a ! 3 * b ! 4 + a ! 4 * b ! 3 + a ! 5 * b ! 2 + a ! 6 * b ! 1 + a ! 7 * b ! 0)),
    i64 (c ! 8 - (a ! 0 * b ! 8 + a ! 1 * b ! 7 + a ! 2 * b ! 6 + a ! 3 * b ! 5 + a ! 4 * b ! 4 + a ! 5 * b ! 3 + a ! 6 * b ! 2 + a ! 7 * b ! 1 + a ! 8 * b ! 0)),
    i64 (c ! 9 - (a ! 0 * b ! 9 + a ! 1 * b ! 8 + a ! 2 * b ! 7 + a ! 3 * b ! 6 + a ! 4 * b ! 5 + a ! 5 * b ! 4 + a ! 6 * b ! 3 + a ! 7 * b ! 2 + a ! 8 * b ! 1 + a ! 9 * b ! 0)),
    i64 (c ! 10 - (a ! 0 * b ! 10 + a ! 1 * b ! 9 + a ! 2 * b ! 8 + a ! 3 * b ! 7 + a ! 4 * b ! 6 + a ! 5 * b ! 5 + a ! 6 * b ! 4 + a ! 7 * b ! 3 + a ! 8 * b ! 2 + a ! 9 * b ! 1 + a ! 10 * b ! 0)),
    i64 (c ! 11 - (a ! 0 * b ! 11 + a ! 1 * b ! 10 + a ! 2 * b ! 9 + a ! 3 * b ! 8 + a ! 4 * b ! 7 + a ! 5 * b ! 6 + a ! 6 * b ! 5 + a ! 7 * b ! 4 + a ! 8 * b ! 3 + a ! 9 * b ! 2 + a ! 10 * b ! 1 + a ! 11 * b ! 0)),
    i64 (-(a ! 1 * b ! 11 + a ! 2 * b ! 10 + a ! 3 * b ! 9 + a ! 4 * b ! 8 + a ! 5 * b ! 7 + a ! 6 * b ! 6 + a ! 7 * b ! 5 + a ! 8 * b ! 4 + a ! 9 * b ! 3 + a ! 10 * b ! 2 + a ! 11 * b ! 1)),
    i64 (-(a ! 2 * b ! 11 + a ! 3 * b ! 10 + a ! 4 * b ! 9 + a ! 5 * b ! 8 + a ! 6 * b ! 7 + a ! 7 * b ! 6 + a ! 8 * b ! 5 + a ! 9 * b ! 4 + a ! 10 * b ! 3 + a ! 11 * b ! 2)),
    i64 (-(a ! 3 * b ! 11 + a ! 4 * b ! 10 + a ! 5 * b ! 9 + a ! 6 * b ! 8 + a ! 7 * b ! 7 + a ! 8 * b ! 6 + a ! 9 * b ! 5 + a ! 10 * b ! 4 + a ! 11 * b ! 3)),
    i64 (-(a ! 4 * b ! 11 + a ! 5 * b ! 10 + a ! 6 * b ! 9 + a ! 7 * b ! 8 + a ! 8 * b ! 7 + a ! 9 * b ! 6 + a ! 10 * b ! 5 + a ! 11 * b ! 4)),
    i64 (-(a ! 5 * b ! 11 + a ! 6 * b ! 10 + a ! 7 * b ! 9 + a ! 8 * b ! 8 + a ! 9 * b ! 7 + a ! 10 * b ! 6 + a ! 11 * b ! 5)),
    i64 (-(a ! 6 * b ! 11 + a ! 7 * b ! 10 + a ! 8 * b ! 9 + a ! 9 * b ! 8 + a ! 10 * b ! 7 + a ! 11 * b ! 6)),
    i64 (-(a ! 7 * b ! 11 + a ! 8 * b ! 10 + a ! 9 * b ! 9 + a ! 10 * b ! 8 + a ! 11 * b ! 7)),
    i64 (-(a ! 8 * b ! 11 + a ! 9 * b ! 10 + a ! 10 * b ! 9 + a ! 11 * b ! 8)),
    i64 (-(a ! 9 * b ! 11 + a ! 10 * b ! 10 + a ! 11 * b ! 9)),
    i64 (-(a ! 10 * b ! 11 + a ! 11 * b ! 10)),
    i64 (-a ! 11 * b ! 11),
    0]"

definition sc_mulsub_ops :: "sc_op list" where
  "sc_mulsub_ops = sc_carry_ops @ sc_fold_ops @ sc_first_ops @ sc_last_ops"

definition sc_mulsub :: "bytes \<Rightarrow> bytes \<Rightarrow> bytes \<Rightarrow> bytes" where
  "sc_mulsub a b c =
     sc_store (run_ops sc_exec sc_mulsub_ops (sc_mulsub_limbs (sc_load a) (sc_load b) (sc_load c)))"

definition sc_mul_limbs :: "int list \<Rightarrow> int list \<Rightarrow> int list" where
  "sc_mul_limbs a b = [
    i64 (a ! 0 * b ! 0),
    i64 ((a ! 0 * b ! 1 + a ! 1 * b ! 0)),
    i64 ((a ! 0 * b ! 2 + a ! 1 * b ! 1 + a ! 2 * b ! 0)),
    i64 ((a ! 0 * b ! 3 + a ! 1 * b ! 2 + a ! 2 * b ! 1 + a ! 3 * b ! 0)),
    i64 ((a ! 0 * b ! 4 + a ! 1 * b ! 3 + a ! 2 * b ! 2 + a ! 3 * b ! 1 + a ! 4 * b ! 0)),
    i64 ((a ! 0 * b ! 5 + a ! 1 * b ! 4 + a ! 2 * b ! 3 + a ! 3 * b ! 2 + a ! 4 * b ! 1 + a ! 5 * b ! 0)),
    i64 ((a ! 0 * b ! 6 + a ! 1 * b ! 5 + a ! 2 * b ! 4 + a ! 3 * b ! 3 + a ! 4 * b ! 2 + a ! 5 * b ! 1 + a ! 6 * b ! 0)),
    i64 ((a ! 0 * b ! 7 + a ! 1 * b ! 6 + a ! 2 * b ! 5 + a ! 3 * b ! 4 + a ! 4 * b ! 3 + a ! 5 * b ! 2 + a ! 6 * b ! 1 + a ! 7 * b ! 0)),
    i64 ((a ! 0 * b ! 8 + a ! 1 * b ! 7 + a ! 2 * b ! 6 + a ! 3 * b ! 5 + a ! 4 * b ! 4 + a ! 5 * b ! 3 + a ! 6 * b ! 2 + a ! 7 * b ! 1 + a ! 8 * b ! 0)),
    i64 ((a ! 0 * b ! 9 + a ! 1 * b ! 8 + a ! 2 * b ! 7 + a ! 3 * b ! 6 + a ! 4 * b ! 5 + a ! 5 * b ! 4 + a ! 6 * b ! 3 + a ! 7 * b ! 2 + a ! 8 * b ! 1 + a ! 9 * b ! 0)),
    i64 ((a ! 0 * b ! 10 + a ! 1 * b ! 9 + a ! 2 * b ! 8 + a ! 3 * b ! 7 + a ! 4 * b ! 6 + a ! 5 * b ! 5 + a ! 6 * b ! 4 + a ! 7 * b ! 3 + a ! 8 * b ! 2 + a ! 9 * b ! 1 + a ! 10 * b ! 0)),
    i64 ((a ! 0 * b ! 11 + a ! 1 * b ! 10 + a ! 2 * b ! 9 + a ! 3 * b ! 8 + a ! 4 * b ! 7 + a ! 5 * b ! 6 + a ! 6 * b ! 5 + a ! 7 * b ! 4 + a ! 8 * b ! 3 + a ! 9 * b ! 2 + a ! 10 * b ! 1 + a ! 11 * b ! 0)),
    i64 ((a ! 1 * b ! 11 + a ! 2 * b ! 10 + a ! 3 * b ! 9 + a ! 4 * b ! 8 + a ! 5 * b ! 7 + a ! 6 * b ! 6 + a ! 7 * b ! 5 + a ! 8 * b ! 4 + a ! 9 * b ! 3 + a ! 10 * b ! 2 + a ! 11 * b ! 1)),
    i64 ((a ! 2 * b ! 11 + a ! 3 * b ! 10 + a ! 4 * b ! 9 + a ! 5 * b ! 8 + a ! 6 * b ! 7 + a ! 7 * b ! 6 + a ! 8 * b ! 5 + a ! 9 * b ! 4 + a ! 10 * b ! 3 + a ! 11 * b ! 2)),
    i64 ((a ! 3 * b ! 11 + a ! 4 * b ! 10 + a ! 5 * b ! 9 + a ! 6 * b ! 8 + a ! 7 * b ! 7 + a ! 8 * b ! 6 + a ! 9 * b ! 5 + a ! 10 * b ! 4 + a ! 11 * b ! 3)),
    i64 ((a ! 4 * b ! 11 + a ! 5 * b ! 10 + a ! 6 * b ! 9 + a ! 7 * b ! 8 + a ! 8 * b ! 7 + a ! 9 * b ! 6 + a ! 10 * b ! 5 + a ! 11 * b ! 4)),
    i64 ((a ! 5 * b ! 11 + a ! 6 * b ! 10 + a ! 7 * b ! 9 + a ! 8 * b ! 8 + a ! 9 * b ! 7 + a ! 10 * b ! 6 + a ! 11 * b ! 5)),
    i64 ((a ! 6 * b ! 11 + a ! 7 * b ! 10 + a ! 8 * b ! 9 + a ! 9 * b ! 8 + a ! 10 * b ! 7 + a ! 11 * b ! 6)),
    i64 ((a ! 7 * b ! 11 + a ! 8 * b ! 10 + a ! 9 * b ! 9 + a ! 10 * b ! 8 + a ! 11 * b ! 7)),
    i64 ((a ! 8 * b ! 11 + a ! 9 * b ! 10 + a ! 10 * b ! 9 + a ! 11 * b ! 8)),
    i64 ((a ! 9 * b ! 11 + a ! 10 * b ! 10 + a ! 11 * b ! 9)),
    i64 ((a ! 10 * b ! 11 + a ! 11 * b ! 10)),
    i64 (a ! 11 * b ! 11),
    0]"

definition sc_mul_ops :: "sc_op list" where
  "sc_mul_ops = sc_carry_ops @ sc_fold_ops @ sc_first_ops @ sc_last_ops"

definition sc_mul :: "bytes \<Rightarrow> bytes \<Rightarrow> bytes" where
  "sc_mul a b = sc_store (run_ops sc_exec sc_mul_ops (sc_mul_limbs (sc_load a) (sc_load b)))"

definition sc_muladd_limbs :: "int list \<Rightarrow> int list \<Rightarrow> int list \<Rightarrow> int list" where
  "sc_muladd_limbs a b c = [
    i64 (c ! 0 + a ! 0 * b ! 0),
    i64 (c ! 1 + (a ! 0 * b ! 1 + a ! 1 * b ! 0)),
    i64 (c ! 2 + (a ! 0 * b ! 2 + a ! 1 * b ! 1 + a ! 2 * b ! 0)),
    i64 (c ! 3 + (a ! 0 * b ! 3 + a ! 1 * b ! 2 + a ! 2 * b ! 1 + a ! 3 * b ! 0)),
    i64 (c ! 4 + (a ! 0 * b ! 4 + a ! 1 * b ! 3 + a ! 2 * b ! 2 + a ! 3 * b ! 1 + a ! 4 * b ! 0)),
    i64 (c ! 5 + (a ! 0 * b ! 5 + a ! 1 * b ! 4 + a ! 2 * b ! 3 + a ! 3 * b ! 2 + a ! 4 * b ! 1 + a ! 5 * b ! 0)),
    i64 (c ! 6 + (a ! 0 * b ! 6 + a ! 1 * b ! 5 + a ! 2 * b ! 4 + a ! 3 * b ! 3 + a ! 4 * b ! 2 + a ! 5 * b ! 1 + a ! 6 * b ! 0)),
    i64 (c ! 7 + (a ! 0 * b ! 7 + a ! 1 * b ! 6 + a ! 2 * b ! 5 + a ! 3 * b ! 4 + a ! 4 * b ! 3 + a ! 5 * b ! 2 + a ! 6 * b ! 1 + a ! 7 * b ! 0)),
    i64 (c ! 8 + (a ! 0 * b ! 8 + a ! 1 * b ! 7 + a ! 2 * b ! 6 + a ! 3 * b ! 5 + a ! 4 * b ! 4 + a ! 5 * b ! 3 + a ! 6 * b ! 2 + a ! 7 * b ! 1 + a ! 8 * b ! 0)),
    i64 (c ! 9 + (a ! 0 * b ! 9 + a ! 1 * b ! 8 + a ! 2 * b ! 7 + a ! 3 * b ! 6 + a ! 4 * b ! 5 + a ! 5 * b ! 4 + a ! 6 * b ! 3 + a ! 7 * b ! 2 + a ! 8 * b ! 1 + a ! 9 * b ! 0)),
    i64 (c ! 10 + (a ! 0 * b ! 10 + a ! 1 * b ! 9 + a ! 2 * b ! 8 + a ! 3 * b ! 7 + a ! 4 * b ! 6 + a ! 5 * b ! 5 + a ! 6 * b ! 4 + a ! 7 * b ! 3 + a ! 8 * b ! 2 + a ! 9 * b ! 1 + a ! 10 * b ! 0)),
    i64 (c ! 11 + (a ! 0 * b ! 11 + a ! 1 * b ! 10 + a ! 2 * b ! 9 + a ! 3 * b ! 8 + a ! 4 * b ! 7 + a ! 5 * b ! 6 + a ! 6 * b ! 5 + a ! 7 * b ! 4 + a ! 8 * b ! 3 + a ! 9 * b ! 2 + a ! 10 * b ! 1 + a ! 11 * b ! 0)),
    i64 ((a ! 1 * b ! 11 + a ! 2 * b ! 10 + a ! 3 * b ! 9 + a ! 4 * b ! 8 + a ! 5 * b ! 7 + a ! 6 * b ! 6 + a ! 7 * b ! 5 + a ! 8 * b ! 4 + a ! 9 * b ! 3 + a ! 10 * b ! 2 + a ! 11 * b ! 1)),
    i64 ((a ! 2 * b ! 11 + a ! 3 * b ! 10 + a ! 4 * b ! 9 + a ! 5 * b ! 8 + a ! 6 * b ! 7 + a ! 7 * b ! 6 + a ! 8 * b ! 5 + a ! 9 * b ! 4 + a ! 10 * b ! 3 + a ! 11 * b ! 2)),
    i64 ((a ! 3 * b ! 11 + a ! 4 * b ! 10 + a ! 5 * b ! 9 + a ! 6 * b ! 8 + a ! 7 * b ! 7 + a ! 8 * b ! 6 + a ! 9 * b ! 5 + a ! 10 * b ! 4 + a ! 11 * b ! 3)),
    i64 ((a ! 4 * b ! 11 + a ! 5 * b ! 10 + a ! 6 * b ! 9 + a ! 7 * b ! 8 + a ! 8 * b ! 7 + a ! 9 * b ! 6 + a ! 10 * b ! 5 + a ! 11 * b ! 4)),
    i64 ((a ! 5 * b ! 11 + a ! 6 * b ! 10 + a ! 7 * b ! 9 + a ! 8 * b ! 8 + a ! 9 * b ! 7 + a ! 10 * b ! 6 + a ! 11 * b ! 5)),
    i64 ((a ! 6 * b ! 11 + a ! 7 * b ! 10 + a ! 8 * b ! 9 + a ! 9 * b ! 8 + a ! 10 * b ! 7 + a ! 11 * b ! 6)),
    i64 ((a ! 7 * b ! 11 + a ! 8 * b ! 10 + a ! 9 * b ! 9 + a ! 10 * b ! 8 + a ! 11 * b ! 7)),
    i64 ((a ! 8 * b ! 11 + a ! 9 * b ! 10 + a ! 10 * b ! 9 + a ! 11 * b ! 8)),
    i64 ((a ! 9 * b ! 11 + a ! 10 * b ! 10 + a ! 11 * b ! 9)),
    i64 ((a ! 10 * b ! 11 + a ! 11 * b ! 10)),
    i64 (a ! 11 * b ! 11),
    0]"

definition sc_muladd_ops :: "sc_op list" where
  "sc_muladd_ops = sc_carry_ops @ sc_fold_ops @ sc_first_ops @ sc_last_ops"

definition sc_muladd :: "bytes \<Rightarrow> bytes \<Rightarrow> bytes \<Rightarrow> bytes" where
  "sc_muladd a b c =
     sc_store (run_ops sc_exec sc_muladd_ops (sc_muladd_limbs (sc_load a) (sc_load b) (sc_load c)))"

definition signum :: "int \<Rightarrow> int" where
  "signum a = (if a > 0 then 1 else if a < 0 then -1 else 0)"

text \<open>\<open>sc_check\<close> returns 0 for a canonical scalar and -1 for any other.\<close>

definition sc_check :: "bytes \<Rightarrow> int" where
  "sc_check s =
     (let s0 = sint (load_4 s);
          s1 = sint (load_4 (drop 4 s));
          s2 = sint (load_4 (drop 8 s));
          s3 = sint (load_4 (drop 12 s));
          s4 = sint (load_4 (drop 16 s));
          s5 = sint (load_4 (drop 20 s));
          s6 = sint (load_4 (drop 24 s));
          s7 = sint (load_4 (drop 28 s))
      in drop_bit 8 (signum (1559614444 - s0) + push_bit 1 (signum (1477600026 - s1))
        + push_bit 2 (signum (2734136534 - s2)) + push_bit 3 (signum (350157278 - s3))
        + push_bit 4 (signum (- s4)) + push_bit 5 (signum (- s5)) + push_bit 6 (signum (- s6))
        + push_bit 7 (signum (268435456 - s7))))"

definition sc_isnonzero :: "bytes \<Rightarrow> int" where
  "sc_isnonzero s = drop_bit 8 (uint (foldr (OR) (take 32 s) 0) - 1) + 1"

section \<open>The group order and the value of the limbs\<close>

definition sc_order :: int where
  "sc_order = 2 ^ 252 + 27742317777372353535851937790883648493"

lemma sc_order_val: "sc_order = 7237005577332262213973186563042994240857116359379907606001950938285454250989"
  by (simp add: sc_order_def)

abbreviation sc_val :: "nat \<Rightarrow> int list \<Rightarrow> int" where
  "sc_val \<equiv> limb_sum (\<lambda>i. 21 * i)"

text \<open>
  How many limbs count after an operation. A fold makes the last limb stale, setting it to 0 makes
  it count again, a carry needs the limb it carries into.
\<close>

fun sc_live :: "sc_op \<Rightarrow> nat \<Rightarrow> nat option" where
  "sc_live (Fold n) m = (if m = Suc n then Some n else None)"
| "sc_live (Zero n) m = (if m = n then Some (Suc n) else None)"
| "sc_live (Round n) m = (if Suc n < m then Some m else None)"
| "sc_live (Floor n) m = (if Suc n < m then Some m else None)"

section \<open>Interval semantics\<close>

definition sc_aadd_mul :: "nat \<Rightarrow> nat \<Rightarrow> int \<Rightarrow> ivl list \<Rightarrow> ivl list option" where
  "sc_aadd_mul j n c B =
     (let p = iscale c (B ! n); q = iadd (B ! j) p
      in if fits64 p \<and> fits64 q then Some (B[j := q]) else None)"

definition sc_asub_mul :: "nat \<Rightarrow> nat \<Rightarrow> int \<Rightarrow> ivl list \<Rightarrow> ivl list option" where
  "sc_asub_mul j n c B =
     (let p = iscale c (B ! n); q = isub (B ! j) p
      in if fits64 p \<and> fits64 q then Some (B[j := q]) else None)"

definition sc_afold :: "nat \<Rightarrow> ivl list \<Rightarrow> ivl list option" where
  "sc_afold n B0 =
     (if 12 \<le> n \<and> n < length B0 then
       (case sc_aadd_mul (n - 12) n 666643 B0 of None \<Rightarrow> None | Some B1 \<Rightarrow>
        case sc_aadd_mul (n - 11) n 470296 B1 of None \<Rightarrow> None | Some B2 \<Rightarrow>
        case sc_aadd_mul (n - 10) n 654183 B2 of None \<Rightarrow> None | Some B3 \<Rightarrow>
        case sc_asub_mul (n - 9) n 997805 B3 of None \<Rightarrow> None | Some B4 \<Rightarrow>
        case sc_aadd_mul (n - 8) n 136657 B4 of None \<Rightarrow> None | Some B5 \<Rightarrow>
        sc_asub_mul (n - 7) n 683901 B5)
      else None)"

text \<open>A carry: \<open>c\<close> bounds the carry, \<open>r\<close> what is left in the limb.\<close>

definition sc_acarry :: "nat \<Rightarrow> ivl \<Rightarrow> ivl \<Rightarrow> ivl list \<Rightarrow> ivl list option" where
  "sc_acarry n c r B =
     (let q = iadd (B ! Suc n) c
      in if Suc n < length B \<and> fits64 q \<and> fits64 (iscale 2097152 c)
         then Some (B[Suc n := q, n := r]) else None)"

definition sc_around :: "nat \<Rightarrow> ivl list \<Rightarrow> ivl list option" where
  "sc_around n B =
     (let t = iadd (B ! n) (1048576, 1048576)
      in if fits64 t then sc_acarry n (ishift 2097152 t) (- 1048576, 1048575) B else None)"

definition sc_afloor :: "nat \<Rightarrow> ivl list \<Rightarrow> ivl list option" where
  "sc_afloor n B = sc_acarry n (ishift 2097152 (B ! n)) (0, 2097151) B"

fun sc_aexec :: "sc_op \<Rightarrow> ivl list \<Rightarrow> ivl list option" where
  "sc_aexec (Fold n) B = sc_afold n B"
| "sc_aexec (Zero n) B = (if n < length B then Some (B[n := (0, 0)]) else None)"
| "sc_aexec (Round n) B = sc_around n B"
| "sc_aexec (Floor n) B = sc_afloor n B"

text \<open>What one statement of a fold keeps: the bounds, the folded limb, and the value up to a term.\<close>

definition mac_ok :: "nat \<Rightarrow> int \<Rightarrow> int list \<Rightarrow> ivl list \<Rightarrow> int list \<Rightarrow> ivl list \<Rightarrow> bool" where
  "mac_ok n d s B s' B' \<longleftrightarrow>
     in_ivls s' B' \<and> length B' = length B \<and> s' ! n = s ! n \<and> sc_val n s' = sc_val n s + s ! n * d"

lemma sc_add_mul_ok:
  assumes "in_ivls s B" and "sc_aadd_mul j n c B = Some B'" and "n < length B" and "j < n"
  shows "mac_ok n (c * 2 ^ (21 * j)) s B (sc_add_mul j n c s) B'"
proof -
  let ?p = "iscale c (B ! n)" and ?q = "iadd (B ! j) (iscale c (B ! n))"
  have B': "fits64 ?p" "fits64 ?q" "B' = B[j := ?q]"
    using assms(2) by (auto simp: sc_aadd_mul_def Let_def split: if_splits)
  have p: "in_ivl (s ! n * c) ?p" and q: "in_ivl (s ! j + s ! n * c) ?q"
    using assms by (auto intro!: ivl_intros in_ivls_nth)
  have "sc_add_mul j n c s = s[j := s ! j + s ! n * c]"
    by (simp add: sc_add_mul_def i64_in [OF p B'(1)] i64_in [OF q B'(2)])
  then show ?thesis
    using assms in_ivls_length [OF assms(1)] q
    by (simp add: mac_ok_def B'(3) in_ivls_update limb_sum_update)
qed

lemma sc_sub_mul_ok:
  assumes "in_ivls s B" and "sc_asub_mul j n c B = Some B'" and "n < length B" and "j < n"
  shows "mac_ok n (- c * 2 ^ (21 * j)) s B (sc_sub_mul j n c s) B'"
proof -
  let ?p = "iscale c (B ! n)" and ?q = "isub (B ! j) (iscale c (B ! n))"
  have B': "fits64 ?p" "fits64 ?q" "B' = B[j := ?q]"
    using assms(2) by (auto simp: sc_asub_mul_def Let_def split: if_splits)
  have p: "in_ivl (s ! n * c) ?p" and q: "in_ivl (s ! j - s ! n * c) ?q"
    using assms by (auto intro!: ivl_intros in_ivls_nth)
  have "sc_sub_mul j n c s = s[j := s ! j - s ! n * c]"
    by (simp add: sc_sub_mul_def i64_in [OF p B'(1)] i64_in [OF q B'(2)])
  then show ?thesis
    using assms in_ivls_length [OF assms(1)] q
    by (simp add: mac_ok_def B'(3) in_ivls_update limb_sum_update)
qed

lemma sc_amul_length:
  "sc_aadd_mul j n c B = Some B' \<Longrightarrow> length B' = length B"
  "sc_asub_mul j n c B = Some B' \<Longrightarrow> length B' = length B"
  by (auto simp: sc_aadd_mul_def sc_asub_mul_def Let_def split: if_splits)

lemma mac_okD:
  assumes "mac_ok n d s B s' B'"
  shows "in_ivls s' B'" "length B' = length B"
  using assms by (simp_all add: mac_ok_def)

lemma mac_ok_trans: "mac_ok n d s B s' B' \<Longrightarrow> mac_ok n e s' B' s'' B'' \<Longrightarrow> mac_ok n (d + e) s B s'' B''"
  by (simp add: mac_ok_def algebra_simps)

lemma sc_fold_ok:
  assumes "in_ivls s B" and "sc_afold n B = Some B'"
  shows "mac_ok n (2 ^ (21 * n) - 2 ^ (21 * (n - 12)) * sc_order) s B (sc_fold n s) B'"
proof -
  have n: "12 \<le> n" "n < length B" using assms(2) by (auto simp: sc_afold_def split: if_splits)
  obtain B1 B2 B3 B4 B5 where steps:
    "sc_aadd_mul (n - 12) n 666643 B = Some B1" "sc_aadd_mul (n - 11) n 470296 B1 = Some B2"
    "sc_aadd_mul (n - 10) n 654183 B2 = Some B3" "sc_asub_mul (n - 9) n 997805 B3 = Some B4"
    "sc_aadd_mul (n - 8) n 136657 B4 = Some B5" "sc_asub_mul (n - 7) n 683901 B5 = Some B'"
    using assms(2) n by (auto simp: sc_afold_def split: option.splits)
  have len: "n < length B1" "n < length B2" "n < length B3" "n < length B4" "n < length B5"
    using n(2) steps by (metis sc_amul_length)+
  have lt: "n - 12 < n" "n - 11 < n" "n - 10 < n" "n - 9 < n" "n - 8 < n" "n - 7 < n"
    using n(1) by simp_all
  note ok1 = sc_add_mul_ok [OF assms(1) steps(1) n(2) lt(1)]
  note ok2 = mac_ok_trans [OF ok1 sc_add_mul_ok [OF mac_okD(1) [OF ok1] steps(2) len(1) lt(2)]]
  note ok3 = mac_ok_trans [OF ok2 sc_add_mul_ok [OF mac_okD(1) [OF ok2] steps(3) len(2) lt(3)]]
  note ok4 = mac_ok_trans [OF ok3 sc_sub_mul_ok [OF mac_okD(1) [OF ok3] steps(4) len(3) lt(4)]]
  note ok5 = mac_ok_trans [OF ok4 sc_add_mul_ok [OF mac_okD(1) [OF ok4] steps(5) len(4) lt(5)]]
  note ok6 = mac_ok_trans [OF ok5 sc_sub_mul_ok [OF mac_okD(1) [OF ok5] steps(6) len(5) lt(6)]]
  obtain m where m: "n = m + 12" using n(1) by (metis le_add_diff_inverse2)
  have "666643 * 2 ^ (21 * (n - 12)) + 470296 * 2 ^ (21 * (n - 11)) + 654183 * 2 ^ (21 * (n - 10))
      + - 997805 * 2 ^ (21 * (n - 9)) + 136657 * 2 ^ (21 * (n - 8)) + - 683901 * 2 ^ (21 * (n - 7))
      = 2 ^ (21 * n) - 2 ^ (21 * (n - 12)) * sc_order"
    by (simp add: m power_add sc_order_def algebra_simps)
  with ok6 show ?thesis by (simp only: sc_fold_def Let_def)
qed

lemma sc_carry_sound:
  assumes "in_ivls s B" and "sc_acarry n c r B = Some B'"
    and "in_ivl carry c" and "in_ivl (s ! n - carry * 2097152) r" and "fits64 r"
  shows "in_ivls (sc_carry n carry s) B'"
    and "Suc n < m \<Longrightarrow> sc_val m (sc_carry n carry s) = sc_val m s"
proof -
  let ?q = "iadd (B ! Suc n) c"
  have B': "Suc n < length B" "fits64 ?q" "fits64 (iscale 2097152 c)" "B' = B[Suc n := ?q, n := r]"
    using assms(2) by (auto simp: sc_acarry_def Let_def split: if_splits)
  have len: "length s = length B" by (rule in_ivls_length [OF assms(1)])
  have q: "in_ivl (s ! Suc n + carry) ?q"
    using assms B' by (auto intro!: ivl_intros in_ivls_nth)
  have eq: "sc_carry n carry s = s[Suc n := s ! Suc n + carry, n := s ! n - carry * 2097152]"
    using i64_in [OF q B'(2)] i64_in [OF in_iscale [OF assms(3)] B'(3)] i64_in [OF assms(4,5)]
    by (simp add: sc_carry_def Let_def)
  show "in_ivls (sc_carry n carry s) B'"
    unfolding eq B'(4) using assms(1,4) q by (intro in_ivls_update)
  show "sc_val m (sc_carry n carry s) = sc_val m s" if "Suc n < m"
    unfolding eq using that len B'(1) by (simp add: limb_sum_update power_add algebra_simps)
qed

lemma sc_round_sound:
  assumes "in_ivls s B" and "sc_around n B = Some B'"
  shows "in_ivls (sc_round n s) B'" and "Suc n < m \<Longrightarrow> sc_val m (sc_round n s) = sc_val m s"
proof -
  let ?t = "iadd (B ! n) (1048576, 1048576)"
  have B': "fits64 ?t" "sc_acarry n (ishift 2097152 ?t) (- 1048576, 1048575) B = Some B'"
    using assms(2) by (auto simp: sc_around_def Let_def split: if_splits)
  then have "n < length B" by (auto simp: sc_acarry_def Let_def split: if_splits)
  then have t: "in_ivl (s ! n + 1048576) ?t"
    by (intro in_iadd in_ivls_nth [OF assms(1)] in_ivl_const)
  let ?c = "(s ! n + 1048576) div 2097152"
  have "in_ivl ?c (ishift 2097152 ?t)" using t by (intro in_ishift) auto
  moreover have "in_ivl (s ! n - ?c * 2097152) (- 1048576, 1048575)"
  proof -
    have "s ! n - ?c * 2097152 = (s ! n + 1048576) mod 2097152 - 1048576"
      by (simp add: minus_div_mult_eq_mod [symmetric])
    moreover have "0 \<le> (s ! n + 1048576) mod 2097152" "(s ! n + 1048576) mod 2097152 < 2097152"
      by simp_all
    ultimately show ?thesis unfolding in_ivl_def fst_conv snd_conv by linarith
  qed
  moreover have "fits64 (- 1048576, 1048575)" by (simp add: fits64_def)
  ultimately show "in_ivls (sc_round n s) B'" and "Suc n < m \<Longrightarrow> sc_val m (sc_round n s) = sc_val m s"
    using sc_carry_sound [OF assms(1) B'(2)] i64_in [OF t B'(1)] by (simp_all add: sc_round_def)
qed

lemma sc_floor_sound:
  assumes "in_ivls s B" and "sc_afloor n B = Some B'"
  shows "in_ivls (sc_floor n s) B'" and "Suc n < m \<Longrightarrow> sc_val m (sc_floor n s) = sc_val m s"
proof -
  have B': "sc_acarry n (ishift 2097152 (B ! n)) (0, 2097151) B = Some B'"
    using assms(2) by (simp add: sc_afloor_def)
  then have "n < length B" by (auto simp: sc_acarry_def Let_def split: if_splits)
  then have "in_ivl (s ! n div 2097152) (ishift 2097152 (B ! n))"
    by (intro in_ishift in_ivls_nth [OF assms(1)]) auto
  moreover have "s ! n - s ! n div 2097152 * 2097152 = s ! n mod 2097152"
    by (simp add: minus_div_mult_eq_mod)
  then have "in_ivl (s ! n - s ! n div 2097152 * 2097152) (0, 2097151)"
    using pos_mod_bound [of 2097152 "s ! n"] by (simp add: in_ivl_def)
  moreover have "fits64 (0, 2097151)" by (simp add: fits64_def)
  ultimately show "in_ivls (sc_floor n s) B'" and "Suc n < m \<Longrightarrow> sc_val m (sc_floor n s) = sc_val m s"
    using sc_carry_sound [OF assms(1) B'] by (simp_all add: sc_floor_def)
qed

interpretation sc: limb_machine sc_exec sc_aexec sc_live sc_val sc_order
proof
  fix s :: "int list" and B c B'
  assume *: "in_ivls s B" "sc_aexec c B = Some B'"
  show "in_ivls (sc_exec c s) B'"
  proof (cases c)
    case (Zero n)
    with * show ?thesis by (auto intro!: in_ivls_update simp: in_ivl_def split: if_splits)
  qed (use * sc_round_sound sc_floor_sound mac_okD(1) [OF sc_fold_ok] in auto)
next
  fix s :: "int list" and B c B' n n'
  assume *: "in_ivls s B" "sc_aexec c B = Some B'" "sc_live c n = Some n'"
  show "sc_order dvd sc_val n' (sc_exec c s) - sc_val n s"
  proof (cases c)
    case (Fold k)
    then have n: "n = Suc k" "n' = k" using * by (auto split: if_splits)
    have "sc_val k (sc_fold k s) = sc_val k s + s ! k * (2 ^ (21 * k) - 2 ^ (21 * (k - 12)) * sc_order)"
      using * Fold sc_fold_ok [of s B k B'] by (simp add: mac_ok_def)
    then have "sc_val n' (sc_exec c s) - sc_val n s = sc_order * (- (s ! k * 2 ^ (21 * (k - 12))))"
      by (simp add: n Fold right_diff_distrib)
    then show ?thesis by (simp only: dvd_triv_left)
  next
    case (Zero k)
    with * in_ivls_length [OF *(1)] show ?thesis
      by (auto simp: limb_sum_update_ge split: if_splits)
  qed (use * sc_round_sound(2) sc_floor_sound(2) in \<open>auto split: if_splits\<close>)
qed

end
