(* ===== verification/Scalar_Correct.thy ===== *)
theory Scalar_Correct
  imports Scalar
begin

text \<open>
  The scalar functions of \<open>Scalar\<close> compute what they are for. The loads cut a byte string into
  its 21 bit digits and the stores join digits again; the interval runs of the statement
  sequences, evaluated once per kind of input (sums, 64 byte values, products), show that no
  \<open>int64_t\<close> overflows and that the limbs end canonical; the interpretation
  \<open>sc\<close> of \<open>limb_machine\<close> shows that the value is kept modulo the group order. Each
  function then returns the canonical 32 bytes of its result modulo the order, for all inputs,
  reduced or not.
\<close>

section \<open>Loading and storing scalars\<close>

lemma sc_load_digits:
  assumes "length p = 32"
  shows "sc_load p = map (\<lambda>i. digit (21 * i) (if i = 11 then 25 else 21) (le_bytes p)) [0..<12]"
  unfolding sc_load_def using assms
  by (simp add: limb_loads limb_loads(5) [where k = 25] digit_drop upt_12)

lemma sc_load64_digits:
  assumes "length p = 64"
  shows "sc_load64 p = map (\<lambda>i. digit (21 * i) (if i = 23 then 29 else 21) (le_bytes p)) [0..<24]"
  unfolding sc_load64_def using assms
  by (simp add: limb_loads limb_loads(5) [where k = 29] digit_drop upt_24)

definition sc_weight :: "nat \<Rightarrow> nat" where
  "sc_weight i = (if i < 12 then 21 * i else 256)"

lemma sc_store_correct:
  assumes low: "\<And>i. i < 11 \<Longrightarrow> 0 \<le> s ! i \<and> s ! i < 2097152"
    and top: "0 \<le> s ! 11" "s ! 11 < 2 ^ 25"
  shows "le_bytes (sc_store s) = sc_val 12 s"
proof -
  define v where "v = sc_val 12 s"
  have eq: "limb_sum sc_weight n s = sc_val n s" if "n \<le> 12" for n
    using that by (induction n) (auto simp: sc_weight_def)
  have rng: "0 \<le> s ! i \<and> s ! i < 2 ^ (sc_weight (Suc i) - sc_weight i)" if "i < 12" for i
    using that low [of i] top by (cases "i = 11") (auto simp: sc_weight_def)
  have d: "s ! i = digit (21 * i) (if i = 11 then 25 else 21) v" if "i < 12" for i
    using limb_sum_digit [of 12 s sc_weight i] rng that eq [of 12]
    by (auto simp: sc_weight_def v_def split: if_splits)
  have v: "0 \<le> v" "v < 256 ^ 32"
    using limb_sum_range [of 12 s sc_weight] rng eq [of 12] by (auto simp: sc_weight_def v_def)
  have ds: "s ! 0 = digit 0 21 v" "s ! 1 = digit 21 21 v" "s ! 2 = digit 42 21 v" "s ! 3 = digit 63 21 v"
    "s ! 4 = digit 84 21 v" "s ! 5 = digit 105 21 v" "s ! 6 = digit 126 21 v" "s ! 7 = digit 147 21 v"
    "s ! 8 = digit 168 21 v" "s ! 9 = digit 189 21 v" "s ! 10 = digit 210 21 v" "s ! 11 = digit 231 25 v"
    using d by simp_all
  note inside = ds [THEN store_inside_digit]
  note straddle = store_straddle_digit [OF ds(1) ds(2)] store_straddle_digit [OF ds(2) ds(3)]
    store_straddle_digit [OF ds(3) ds(4)] store_straddle_digit [OF ds(4) ds(5)]
    store_straddle_digit [OF ds(5) ds(6)] store_straddle_digit [OF ds(6) ds(7)]
    store_straddle_digit [OF ds(7) ds(8)] store_straddle_digit [OF ds(8) ds(9)]
    store_straddle_digit [OF ds(9) ds(10)] store_straddle_digit [OF ds(10) ds(11)]
    store_straddle_digit [OF ds(11) ds(12)]
  have m: "map uint (sc_store s) = map (\<lambda>j. digit (8 * j) 8 v) [0..<32]"
    by (simp add: sc_store_def inside straddle upt_32 del: drop_bit_0 One_nat_def)
  have len: "length (sc_store s) = 32" by (simp add: sc_store_def)
  have "uint (sc_store s ! j) = digit (8 * j) 8 v" if "j < 32" for j
    using arg_cong [OF m, of "\<lambda>l. l ! j"] len that by (simp del: upt_Suc)
  then have "le_bytes (sc_store s) = v mod 256 ^ 32"
    using le_bytes_digits [of "sc_store s" v] len by simp
  with v show ?thesis by (simp add: v_def)
qed

section \<open>The reductions\<close>

text \<open>
  Before the last reduction the limbs \<open>s0\<close> to \<open>s11\<close> are below \<open>2 ^ 21\<close> and
  \<open>s12\<close> is 0 or -1: the last fold lands between 0 and the order, and the last carries make
  the limbs canonical.
\<close>

definition sc_canonical :: "int list \<Rightarrow> bool" where
  "sc_canonical s \<longleftrightarrow> (\<forall>i<12. 0 \<le> s ! i \<and> s ! i \<le> 2097151) \<and> - 1 \<le> s ! 12 \<and> s ! 12 \<le> 0"

text \<open>The interval run of the operations up to the last reduction, and of the last reduction,
  ends within the bounds. This is evaluated, once per kind of input.\<close>

definition sc_ends_ok :: "sc_op list \<Rightarrow> ivl list \<Rightarrow> bool" where
  "sc_ends_ok ops B =
     (case orun sc_aexec ops B of None \<Rightarrow> False | Some B1 \<Rightarrow>
        12 < length B1 \<and> list_all (\<lambda>I. I = (0, 2097151)) (take 12 B1) \<and> B1 ! 12 = (- 1, 0)
        \<and> (case orun sc_aexec sc_last_ops B1 of None \<Rightarrow> False | Some B2 \<Rightarrow>
             12 < length B2 \<and> list_all (\<lambda>I. I = (0, 2097151)) (take 11 B2)))"

lemma sc_val_mod_unique:
  assumes "sc_order dvd x - y" and "0 \<le> x" and "x < sc_order"
  shows "x = y mod sc_order"
  using assms by (metis mod_eq_dvd_iff mod_pos_pos_trivial)

lemma sc_order_pos: "0 < sc_order"
  by (simp add: sc_order_def)

lemma sc_last_value:
  assumes "sc_canonical s" and "mac_ok 12 (2 ^ 252 - sc_order) s B s' B'"
  shows "0 \<le> sc_val 12 s'" and "sc_val 12 s' < sc_order"
proof -
  have r: "0 \<le> sc_val 12 s \<and> sc_val 12 s < 2 ^ (21 * 12)"
    using assms(1) by (intro limb_sum_range) (auto simp: sc_canonical_def)
  have eq: "sc_val 12 s' = sc_val 12 s + s ! 12 * (2 ^ 252 - sc_order)"
    using assms(2) by (simp add: mac_ok_def)
  have "s ! 12 = 0 \<or> s ! 12 = - 1" using assms(1) by (auto simp: sc_canonical_def)
  then show "0 \<le> sc_val 12 s'" and "sc_val 12 s' < sc_order"
    using r eq by (auto simp: sc_order_def)
qed


lemma sc_floors_exact:
  "in_ivls s B \<Longrightarrow> orun sc_aexec (map Floor ns) B = Some B' \<Longrightarrow> (\<And>n. n \<in> set ns \<Longrightarrow> Suc n < m) \<Longrightarrow>
    sc_val m (run_ops sc_exec (map Floor ns) s) = sc_val m s"
proof (induction ns arbitrary: s B)
  case (Cons n ns)
  obtain B1 where B1: "sc_afloor n B = Some B1" "orun sc_aexec (map Floor ns) B1 = Some B'"
    using Cons.prems(2) by (auto split: option.splits)
  have "sc_val m (run_ops sc_exec (map Floor ns) (sc_floor n s)) = sc_val m (sc_floor n s)"
    using Cons.IH [OF sc_floor_sound(1) [OF Cons.prems(1) B1(1)] B1(2)] Cons.prems(3) by simp
  also have "\<dots> = sc_val m s"
    using sc_floor_sound(2) [OF Cons.prems(1) B1(1)] Cons.prems(3) by simp
  finally show ?case by simp
qed simp

lemma sc_last_ops_split: "sc_last_ops = Fold 12 # map Floor [0..<11]"
  by (simp add: sc_last_ops_def upt_rec)

lemma list_all_take_nth: "list_all P (take n xs) \<Longrightarrow> i < n \<Longrightarrow> n \<le> length xs \<Longrightarrow> P (xs ! i)"
  by (auto simp: list_all_length)

lemma sc_store_reduced:
  assumes low: "\<And>i. i < 11 \<Longrightarrow> 0 \<le> s ! i \<and> s ! i < 2097152"
    and v: "0 \<le> sc_val 12 s" "sc_val 12 s < sc_order"
  shows "le_bytes (sc_store s) = sc_val 12 s"
proof (rule sc_store_correct [OF low])
  have "0 \<le> sc_val 11 s \<and> sc_val 11 s < 2 ^ (21 * 11)"
    using low by (intro limb_sum_range) auto
  moreover have "sc_val 12 s = sc_val 11 s + s ! 11 * 2 ^ 231"
    by (simp add: eval_nat_numeral)
  ultimately have "- (2 ^ 231) < s ! 11 * 2 ^ 231" "s ! 11 * 2 ^ 231 < 2 ^ 25 * 2 ^ 231"
    using v by (simp_all add: sc_order_def)
  then show "0 \<le> s ! 11" "s ! 11 < 2 ^ 25" by simp_all
qed

text \<open>The last reduction: a canonical state with \<open>s12\<close> becomes the reduced bytes.\<close>

lemma sc_last_run:
  assumes "in_ivls s B" and "12 < length B" and "list_all (\<lambda>I. I = (0, 2097151)) (take 12 B)"
    and "B ! 12 = (- 1, 0)"
    and "orun sc_aexec sc_last_ops B = Some B2" and "12 < length B2"
    and "list_all (\<lambda>I. I = (0, 2097151)) (take 11 B2)"
  shows "le_bytes (sc_store (run_ops sc_exec sc_last_ops s)) = sc_val 13 s mod sc_order"
proof -
  have "in_ivl (s ! i) (0, 2097151)" if "i < 12" for i
    using in_ivls_nth [OF assms(1), of i] list_all_take_nth [OF assms(3) that] assms(2) that by simp
  moreover have "in_ivl (s ! 12) (- 1, 0)"
    using in_ivls_nth [OF assms(1), of 12] assms(2,4) by simp
  ultimately have can: "sc_canonical s" by (simp add: sc_canonical_def in_ivl_def)
  obtain B' where B': "sc_afold 12 B = Some B'" "orun sc_aexec (map Floor [0..<11]) B' = Some B2"
    using assms(5) by (auto simp: sc_last_ops_split simp del: upt_Suc split: option.splits)
  define s2 where "s2 = sc_fold 12 s"
  define s3 where "s3 = run_ops sc_exec (map Floor [0..<11]) s2"
  have ok: "mac_ok 12 (2 ^ 252 - sc_order) s B s2 B'"
    using sc_fold_ok [OF assms(1) B'(1)] by (simp add: s2_def)
  have v2: "0 \<le> sc_val 12 s2" "sc_val 12 s2 < sc_order" by (rule sc_last_value [OF can ok])+
  have v3: "sc_val 12 s3 = sc_val 12 s2"
    unfolding s3_def by (rule sc_floors_exact [OF mac_okD(1) [OF ok] B'(2)]) auto
  have "sc_val 12 s2 = sc_val 13 s - s ! 12 * sc_order"
    using ok by (simp add: mac_ok_def eval_nat_numeral right_diff_distrib)
  then have "sc_order dvd sc_val 12 s2 - sc_val 13 s" by simp
  then have val: "sc_val 12 s3 = sc_val 13 s mod sc_order"
    unfolding v3 using v2 by (intro sc_val_mod_unique)
  have in3: "in_ivls s3 B2" unfolding s3_def by (rule sc.run_sound [OF mac_okD(1) [OF ok] B'(2)])
  have "0 \<le> s3 ! i \<and> s3 ! i < 2097152" if "i < 11" for i
    using in_ivls_nth [OF in3, of i] list_all_take_nth [OF assms(7) that] assms(6) that
    by (simp add: in_ivl_def)
  then have "le_bytes (sc_store s3) = sc_val 12 s3"
    using v2 v3 by (intro sc_store_reduced) auto
  moreover have "run_ops sc_exec sc_last_ops s = s3"
    by (simp add: sc_last_ops_split s2_def s3_def del: upt_Suc)
  ultimately show ?thesis using val by simp
qed

lemma sc_finish:
  assumes "sc_ends_ok ops B" and "in_ivls s B" and "orun sc_live ops n = Some 13"
  shows "le_bytes (sc_store (run_ops sc_exec (ops @ sc_last_ops) s)) = sc_val n s mod sc_order"
proof -
  obtain B1 B2 where B1: "orun sc_aexec ops B = Some B1" "12 < length B1"
      "list_all (\<lambda>I. I = (0, 2097151)) (take 12 B1)" "B1 ! 12 = (- 1, 0)"
    and B2: "orun sc_aexec sc_last_ops B1 = Some B2" "12 < length B2"
      "list_all (\<lambda>I. I = (0, 2097151)) (take 11 B2)"
    using assms(1) by (auto simp: sc_ends_ok_def split: option.splits)
  have "le_bytes (sc_store (run_ops sc_exec sc_last_ops (run_ops sc_exec ops s)))
      = sc_val 13 (run_ops sc_exec ops s) mod sc_order"
    by (rule sc_last_run [OF sc.run_sound [OF assms(2) B1(1)] B1(2-4) B2])
  also have "\<dots> = sc_val n s mod sc_order"
    by (rule sc.run_mod [OF assms(2) B1(1) assms(3)])
  finally show ?thesis by (simp add: run_ops_append)
qed

section \<open>Evaluating the bounds\<close>

text \<open>Limbs of a sum or difference of two loaded scalars, limbs of a loaded 64 byte value, limbs
  of a product.\<close>

definition sc_short_ivls :: "ivl list" where
  "sc_short_ivls = replicate 11 (- 4194302, 4194302) @ [(- 67108862, 67108862), (0, 0)]"

definition sc_wide_ivls :: "ivl list" where
  "sc_wide_ivls = replicate 23 (0, 2097151) @ [(0, 536870911)]"

definition sc_prod_ivls :: "ivl list" where
  "sc_prod_ivls = replicate 23 (- 18014398509481984, 18014398509481984) @ [(0, 0)]"

lemma sc_short_ends: "sc_ends_ok sc_first_ops sc_short_ivls"
  by code_simp

lemma sc_wide_ends: "sc_ends_ok (sc_fold_ops @ sc_first_ops) sc_wide_ivls"
  by code_simp

lemma sc_prod_ends: "sc_ends_ok (sc_carry_ops @ sc_fold_ops @ sc_first_ops) sc_prod_ivls"
  by code_simp

lemma sc_short_live: "orun sc_live sc_first_ops 13 = Some 13"
  by code_simp

lemma sc_wide_live: "orun sc_live (sc_fold_ops @ sc_first_ops) 24 = Some 13"
  by code_simp

lemma sc_prod_live: "orun sc_live (sc_carry_ops @ sc_fold_ops @ sc_first_ops) 24 = Some 13"
  by code_simp

lemmas sc_short = sc_finish [OF sc_short_ends _ sc_short_live]
lemmas sc_wide = sc_finish [OF sc_wide_ends _ sc_wide_live, unfolded append_assoc]
lemmas sc_prod = sc_finish [OF sc_prod_ends _ sc_prod_live, unfolded append_assoc]

section \<open>Sums and products of limbs\<close>

text \<open>The product of two scalars as 24 limbs, without wrap-around.\<close>

definition sc_conv :: "int list \<Rightarrow> int list \<Rightarrow> int list" where
  "sc_conv a b = [
    a ! 0 * b ! 0,
    a ! 0 * b ! 1 + a ! 1 * b ! 0,
    a ! 0 * b ! 2 + a ! 1 * b ! 1 + a ! 2 * b ! 0,
    a ! 0 * b ! 3 + a ! 1 * b ! 2 + a ! 2 * b ! 1 + a ! 3 * b ! 0,
    a ! 0 * b ! 4 + a ! 1 * b ! 3 + a ! 2 * b ! 2 + a ! 3 * b ! 1 + a ! 4 * b ! 0,
    a ! 0 * b ! 5 + a ! 1 * b ! 4 + a ! 2 * b ! 3 + a ! 3 * b ! 2 + a ! 4 * b ! 1 + a ! 5 * b ! 0,
    a ! 0 * b ! 6 + a ! 1 * b ! 5 + a ! 2 * b ! 4 + a ! 3 * b ! 3 + a ! 4 * b ! 2 + a ! 5 * b ! 1 + a ! 6 * b ! 0,
    a ! 0 * b ! 7 + a ! 1 * b ! 6 + a ! 2 * b ! 5 + a ! 3 * b ! 4 + a ! 4 * b ! 3 + a ! 5 * b ! 2 + a ! 6 * b ! 1 + a ! 7 * b ! 0,
    a ! 0 * b ! 8 + a ! 1 * b ! 7 + a ! 2 * b ! 6 + a ! 3 * b ! 5 + a ! 4 * b ! 4 + a ! 5 * b ! 3 + a ! 6 * b ! 2 + a ! 7 * b ! 1 + a ! 8 * b ! 0,
    a ! 0 * b ! 9 + a ! 1 * b ! 8 + a ! 2 * b ! 7 + a ! 3 * b ! 6 + a ! 4 * b ! 5 + a ! 5 * b ! 4 + a ! 6 * b ! 3 + a ! 7 * b ! 2 + a ! 8 * b ! 1 + a ! 9 * b ! 0,
    a ! 0 * b ! 10 + a ! 1 * b ! 9 + a ! 2 * b ! 8 + a ! 3 * b ! 7 + a ! 4 * b ! 6 + a ! 5 * b ! 5 + a ! 6 * b ! 4 + a ! 7 * b ! 3 + a ! 8 * b ! 2 + a ! 9 * b ! 1 + a ! 10 * b ! 0,
    a ! 0 * b ! 11 + a ! 1 * b ! 10 + a ! 2 * b ! 9 + a ! 3 * b ! 8 + a ! 4 * b ! 7 + a ! 5 * b ! 6 + a ! 6 * b ! 5 + a ! 7 * b ! 4 + a ! 8 * b ! 3 + a ! 9 * b ! 2 + a ! 10 * b ! 1 + a ! 11 * b ! 0,
    a ! 1 * b ! 11 + a ! 2 * b ! 10 + a ! 3 * b ! 9 + a ! 4 * b ! 8 + a ! 5 * b ! 7 + a ! 6 * b ! 6 + a ! 7 * b ! 5 + a ! 8 * b ! 4 + a ! 9 * b ! 3 + a ! 10 * b ! 2 + a ! 11 * b ! 1,
    a ! 2 * b ! 11 + a ! 3 * b ! 10 + a ! 4 * b ! 9 + a ! 5 * b ! 8 + a ! 6 * b ! 7 + a ! 7 * b ! 6 + a ! 8 * b ! 5 + a ! 9 * b ! 4 + a ! 10 * b ! 3 + a ! 11 * b ! 2,
    a ! 3 * b ! 11 + a ! 4 * b ! 10 + a ! 5 * b ! 9 + a ! 6 * b ! 8 + a ! 7 * b ! 7 + a ! 8 * b ! 6 + a ! 9 * b ! 5 + a ! 10 * b ! 4 + a ! 11 * b ! 3,
    a ! 4 * b ! 11 + a ! 5 * b ! 10 + a ! 6 * b ! 9 + a ! 7 * b ! 8 + a ! 8 * b ! 7 + a ! 9 * b ! 6 + a ! 10 * b ! 5 + a ! 11 * b ! 4,
    a ! 5 * b ! 11 + a ! 6 * b ! 10 + a ! 7 * b ! 9 + a ! 8 * b ! 8 + a ! 9 * b ! 7 + a ! 10 * b ! 6 + a ! 11 * b ! 5,
    a ! 6 * b ! 11 + a ! 7 * b ! 10 + a ! 8 * b ! 9 + a ! 9 * b ! 8 + a ! 10 * b ! 7 + a ! 11 * b ! 6,
    a ! 7 * b ! 11 + a ! 8 * b ! 10 + a ! 9 * b ! 9 + a ! 10 * b ! 8 + a ! 11 * b ! 7,
    a ! 8 * b ! 11 + a ! 9 * b ! 10 + a ! 10 * b ! 9 + a ! 11 * b ! 8,
    a ! 9 * b ! 11 + a ! 10 * b ! 10 + a ! 11 * b ! 9,
    a ! 10 * b ! 11 + a ! 11 * b ! 10,
    a ! 11 * b ! 11,
    0]"

lemma sc_val_12:
  assumes "X = 2 ^ 21"
  shows "sc_val 12 s = s ! 0 * X ^ 0 + s ! 1 * X ^ 1 + s ! 2 * X ^ 2 + s ! 3 * X ^ 3 + s ! 4 * X ^ 4 + s ! 5 * X ^ 5 + s ! 6 * X ^ 6 + s ! 7 * X ^ 7 + s ! 8 * X ^ 8 + s ! 9 * X ^ 9 + s ! 10 * X ^ 10 + s ! 11 * X ^ 11"
proof -
  have "2 ^ (21 * i) = X ^ i" for i by (simp only: assms power_mult)
  then show ?thesis by (simp only: limb_sum_list upt_12 list.map sum_list.Cons sum_list.Nil add_0_right add.assoc)
qed

lemma sc_val_24:
  assumes "X = 2 ^ 21"
  shows "sc_val 24 s = s ! 0 * X ^ 0 + s ! 1 * X ^ 1 + s ! 2 * X ^ 2 + s ! 3 * X ^ 3 + s ! 4 * X ^ 4 + s ! 5 * X ^ 5 + s ! 6 * X ^ 6 + s ! 7 * X ^ 7 + s ! 8 * X ^ 8 + s ! 9 * X ^ 9 + s ! 10 * X ^ 10 + s ! 11 * X ^ 11 + s ! 12 * X ^ 12 + s ! 13 * X ^ 13 + s ! 14 * X ^ 14 + s ! 15 * X ^ 15 + s ! 16 * X ^ 16 + s ! 17 * X ^ 17 + s ! 18 * X ^ 18 + s ! 19 * X ^ 19 + s ! 20 * X ^ 20 + s ! 21 * X ^ 21 + s ! 22 * X ^ 22 + s ! 23 * X ^ 23"
proof -
  have "2 ^ (21 * i) = X ^ i" for i by (simp only: assms power_mult)
  then show ?thesis by (simp only: limb_sum_list upt_24 list.map sum_list.Cons sum_list.Nil add_0_right add.assoc)
qed

lemma sc_conv_val: "sc_val 24 (sc_conv a b) = sc_val 12 a * sc_val 12 b"
proof -
  define X :: int where "X = 2 ^ 21"
  show ?thesis
    unfolding sc_val_12 [OF X_def] sc_val_24 [OF X_def] sc_conv_def nth_Cons_0 nth_Cons_numeral
    by simp algebra
qed

lemma i64_0 [simp]: "i64 0 = 0"
  by (simp add: i64_id)

lemma length_12E:
  assumes "length xs = 12"
  obtains x0 x1 x2 x3 x4 x5 x6 x7 x8 x9 x10 x11 where "xs = [x0, x1, x2, x3, x4, x5, x6, x7, x8, x9, x10, x11]"
  using assms by (auto simp: length_Suc_conv eval_nat_numeral)

lemma sc_mul_limbs_conv: "sc_mul_limbs a b = map i64 (sc_conv a b)"
  by (simp add: sc_mul_limbs_def sc_conv_def)

lemma sc_muladd_limbs_conv:
  assumes "length c = 12"
  shows "sc_muladd_limbs a b c = map2 (\<lambda>x y. i64 (x + y)) (c @ replicate 12 0) (sc_conv a b)"
  by (rule length_12E [OF assms]) (simp add: sc_muladd_limbs_def sc_conv_def eval_nat_numeral)

lemma sc_mulsub_limbs_conv:
  assumes "length c = 12"
  shows "sc_mulsub_limbs a b c = map2 (\<lambda>x y. i64 (x - y)) (c @ replicate 12 0) (sc_conv a b)"
  by (rule length_12E [OF assms]) (simp add: sc_mulsub_limbs_def sc_conv_def eval_nat_numeral)

lemma sc_add_limbs_conv:
  assumes "length a = 12" and "length b = 12"
  shows "sc_add_limbs a b = map2 (\<lambda>x y. i64 (x + y)) a b @ [0]"
  by (rule length_12E [OF assms(1)], rule length_12E [OF assms(2)]) (simp add: sc_add_limbs_def)

lemma sc_sub_limbs_conv:
  assumes "length a = 12" and "length b = 12"
  shows "sc_sub_limbs a b = map2 (\<lambda>x y. i64 (x - y)) a b @ [0]"
  by (rule length_12E [OF assms(1)], rule length_12E [OF assms(2)]) (simp add: sc_sub_limbs_def)

text \<open>The limbs of a product of loaded scalars stay below \<open>12 * 2 ^ 50\<close>.\<close>

lemma sc_conv_bound:
  assumes "\<And>i. i < 12 \<Longrightarrow> 0 \<le> a ! i \<and> a ! i < 33554432"
    and "\<And>i. i < 12 \<Longrightarrow> 0 \<le> b ! i \<and> b ! i < 33554432" and "k < 24"
  shows "\<bar>sc_conv a b ! k\<bar> \<le> 13510798882111488"
proof -
  have ab: "\<bar>a ! i * b ! j\<bar> \<le> 1125899906842624" if "i < 12" "j < 12" for i j
  proof -
    have "a ! i * b ! j \<le> 33554432 * 33554432"
      using assms(1) [OF that(1)] assms(2) [OF that(2)] by (intro mult_mono) auto
    then show ?thesis using assms(1) [OF that(1)] assms(2) [OF that(2)] by simp
  qed
  have "list_all (\<lambda>x. \<bar>x\<bar> \<le> 13510798882111488) (sc_conv a b)"
    unfolding sc_conv_def list.pred_inject
    by (intro conjI TrueI; (rule order_trans, (rule abs_add_bound)+, (rule ab, simp, simp)+, simp
      | rule order_trans, rule ab, simp, simp, simp | simp))
  then show ?thesis using assms(3) by (auto simp: list_all_length sc_conv_def)
qed

lemma limb_sum_map2:
  assumes "n \<le> length xs" and "n \<le> length ys"
  shows "limb_sum w n (map2 (\<lambda>x y. x + y) xs ys) = limb_sum w n xs + limb_sum w n ys"
    and "limb_sum w n (map2 (\<lambda>x y. x - y) xs ys) = limb_sum w n xs - limb_sum w n ys"
  using assms by (induction n) (auto simp: algebra_simps)

lemma limb_sum_append: "n \<le> length xs \<Longrightarrow> limb_sum w n (xs @ ys) = limb_sum w n xs"
  by (induction n) (auto simp: nth_append)

lemma limb_sum_append_zeros: "limb_sum w (length xs + k) (xs @ replicate k 0) = limb_sum w (length xs) xs"
  by (induction k) (auto simp: limb_sum_append nth_append limb_sum_update_ge replicate_append_same [symmetric]
    simp del: replicate_append_same append_assoc simp flip: append_assoc)

lemma sc_load_props:
  assumes "length p = 32"
  shows "length (sc_load p) = 12" and "sc_val 12 (sc_load p) = le_bytes p"
    and "i < 12 \<Longrightarrow> 0 \<le> sc_load p ! i \<and> sc_load p ! i < 33554432"
    and "i < 11 \<Longrightarrow> sc_load p ! i < 2097152"
proof -
  note d = sc_load_digits [OF assms]
  show "length (sc_load p) = 12" by (simp add: d)
  show "0 \<le> sc_load p ! i \<and> sc_load p ! i < 33554432" if "i < 12"
    using that digit_bounds [of "21 * i" 25 "le_bytes p"] digit_bounds [of "21 * i" 21 "le_bytes p"]
    by (cases "i = 11") (simp_all add: d)
  show "sc_load p ! i < 2097152" if "i < 11"
    using that digit_bounds [of "21 * i" 21 "le_bytes p"] by (simp add: d)
  have "limb_sum sc_weight 12 (sc_load p) = le_bytes p mod 2 ^ sc_weight 12"
    by (intro limb_sum_digits) (auto simp: d sc_weight_def)
  moreover have "limb_sum sc_weight n (sc_load p) = sc_val n (sc_load p)" if "n \<le> 12" for n
    using that by (induction n) (auto simp: sc_weight_def)
  moreover have "le_bytes p < 2 ^ 256" using le_bytes_less [of p] by (simp add: assms)
  ultimately show "sc_val 12 (sc_load p) = le_bytes p" by (simp add: sc_weight_def)
qed

lemma sc_load64_props:
  assumes "length p = 64"
  shows "in_ivls (sc_load64 p) sc_wide_ivls" and "sc_val 24 (sc_load64 p) = le_bytes p"
proof -
  note d = sc_load64_digits [OF assms]
  have "in_ivl (sc_load64 p ! i) (sc_wide_ivls ! i)" if "i < 24" for i
    using that digit_bounds [of "21 * i" 29 "le_bytes p"] digit_bounds [of "21 * i" 21 "le_bytes p"]
    by (cases "i = 23") (auto simp: d in_ivl_def sc_wide_ivls_def nth_append)
  then show "in_ivls (sc_load64 p) sc_wide_ivls"
    by (auto simp: list_all2_conv_all_nth d sc_wide_ivls_def)
  define w where "w i = (if i < 24 then 21 * i else 512)" for i :: nat
  have "limb_sum w 24 (sc_load64 p) = le_bytes p mod 2 ^ w 24"
    by (intro limb_sum_digits) (auto simp: d w_def)
  moreover have "limb_sum w n (sc_load64 p) = sc_val n (sc_load64 p)" if "n \<le> 24" for n
    using that by (induction n) (auto simp: w_def)
  moreover have "le_bytes p < 2 ^ 512" using le_bytes_less [of p] by (simp add: assms)
  ultimately show "sc_val 24 (sc_load64 p) = le_bytes p" by (simp add: w_def)
qed

lemma length_sc_store [simp]: "length (sc_store s) = 32"
  by (simp add: sc_store_def)

lemma in_short_ivls:
  assumes "length xs = 12" and "\<And>i. i < 11 \<Longrightarrow> \<bar>xs ! i\<bar> \<le> 4194302" and "\<bar>xs ! 11\<bar> \<le> 67108862"
  shows "in_ivls (xs @ [0]) sc_short_ivls"
proof -
  have "in_ivl ((xs @ [0]) ! i) (sc_short_ivls ! i)" if "i < 13" for i
  proof -
    from that consider "i < 11" | "i = 11" | "i = 12" by linarith
    then show ?thesis
      using assms(2) [of i] assms(1,3) by cases (auto simp: in_ivl_def sc_short_ivls_def nth_append)
  qed
  then show ?thesis using assms(1) by (auto simp: list_all2_conv_all_nth sc_short_ivls_def)
qed

lemma in_prod_ivls:
  assumes "length xs = 24" and "\<And>i. i < 24 \<Longrightarrow> \<bar>xs ! i\<bar> \<le> 18014398509481984" and "xs ! 23 = 0"
  shows "in_ivls xs sc_prod_ivls"
proof -
  have "in_ivl (xs ! i) (sc_prod_ivls ! i)" if "i < 24" for i
    using that assms(2) [OF that] assms(3)
    by (cases "i = 23") (auto simp: in_ivl_def sc_prod_ivls_def nth_append)
  then show ?thesis using assms(1) by (auto simp: list_all2_conv_all_nth sc_prod_ivls_def)
qed

section \<open>The functions\<close>

text \<open>C15. \<open>sc_reduce\<close> replaces the first 32 bytes of any 64 byte string by the canonical
  little-endian bytes of its value modulo the group order, and leaves the other 32 bytes alone.\<close>

theorem sc_reduce_correct:
  assumes "length s = 64"
  shows "length (sc_reduce s) = 64 \<and> le_bytes (take 32 (sc_reduce s)) = le_bytes s mod sc_order
    \<and> drop 32 (sc_reduce s) = drop 32 s"
  using sc_wide [OF sc_load64_props(1) [OF assms]] assms
  by (simp add: sc_reduce_def sc_reduce_ops_def sc_load64_props(2))

text \<open>C39. \<open>sc_reduce32\<close> returns the canonical bytes of a 32 byte value modulo the group
  order.\<close>

theorem sc_reduce32_correct:
  assumes "length s = 32"
  shows "length (sc_reduce32 s) = 32 \<and> le_bytes (sc_reduce32 s) = le_bytes s mod sc_order"
proof -
  note p = sc_load_props [OF assms]
  have "\<bar>sc_load s ! i\<bar> \<le> 4194302" if "i < 11" for i
    using p(3,4) [of i] that by simp
  then have "in_ivls (sc_load s @ [0]) sc_short_ivls"
    using p(1) p(3) [of 11] by (intro in_short_ivls) auto
  moreover have "sc_val 13 (sc_load s @ [0]) = le_bytes s"
    using limb_sum_append_zeros [of _ "sc_load s" 1] p(1,2) by simp
  ultimately show ?thesis
    using sc_short [of "sc_load s @ [0]"] by (simp add: sc_reduce32_def sc_short_ops_def)
qed

text \<open>The limbs of a sum, a difference and the three products of loaded scalars: their bounds and
  their value.\<close>

lemma map2_i64:
  assumes "length xs = length ys"
    and "\<And>i. i < length xs \<Longrightarrow> \<bar>f (xs ! i) (ys ! i)\<bar> \<le> 9223372036854775807"
  shows "map2 (\<lambda>x y. i64 (f x y)) xs ys = map2 f xs ys"
proof (rule nth_equalityI)
  fix i assume "i < length (map2 (\<lambda>x y. i64 (f x y)) xs ys)"
  then have "i < length xs" "i < length ys" by auto
  then show "map2 (\<lambda>x y. i64 (f x y)) xs ys ! i = map2 f xs ys ! i"
    using assms(2) [of i] by (simp add: i64_id abs_le_iff)
qed simp

lemma sc_add_limbs_props:
  assumes "length a = 32" and "length b = 32"
  shows "in_ivls (sc_add_limbs (sc_load a) (sc_load b)) sc_short_ivls"
    and "sc_val 13 (sc_add_limbs (sc_load a) (sc_load b)) = le_bytes a + le_bytes b"
proof -
  note a = sc_load_props [OF assms(1)] and b = sc_load_props [OF assms(2)]
  let ?s = "map2 (\<lambda>x y. x + y) (sc_load a) (sc_load b)"
  have i: "\<bar>sc_load a ! i + sc_load b ! i\<bar> \<le> 67108862" if "i < 12" for i
    using a(3) [OF that] b(3) [OF that] by linarith
  then have "map2 (\<lambda>x y. i64 (x + y)) (sc_load a) (sc_load b) = ?s"
    using a(1) b(1) by (intro map2_i64) fastforce+
  then have eq: "sc_add_limbs (sc_load a) (sc_load b) = ?s @ [0]"
    using a(1) b(1) by (simp add: sc_add_limbs_conv)
  have "\<bar>?s ! i\<bar> \<le> 4194302" if "i < 11" for i
    using a(1) b(1) a(3) [of i] a(4) [of i] b(3) [of i] b(4) [of i] that by simp
  then show "in_ivls (sc_add_limbs (sc_load a) (sc_load b)) sc_short_ivls"
    unfolding eq using a(1) b(1) i [of 11] by (intro in_short_ivls) auto
  show "sc_val 13 (sc_add_limbs (sc_load a) (sc_load b)) = le_bytes a + le_bytes b"
    unfolding eq using limb_sum_append_zeros [of _ ?s 1] limb_sum_map2(1) [of 12 "sc_load a" "sc_load b"]
      a(1,2) b(1,2) by simp
qed

lemma sc_sub_limbs_props:
  assumes "length a = 32" and "length b = 32"
  shows "in_ivls (sc_sub_limbs (sc_load a) (sc_load b)) sc_short_ivls"
    and "sc_val 13 (sc_sub_limbs (sc_load a) (sc_load b)) = le_bytes a - le_bytes b"
proof -
  note a = sc_load_props [OF assms(1)] and b = sc_load_props [OF assms(2)]
  let ?s = "map2 (\<lambda>x y. x - y) (sc_load a) (sc_load b)"
  have i: "\<bar>sc_load a ! i - sc_load b ! i\<bar> \<le> 67108862" if "i < 12" for i
    using a(3) [OF that] b(3) [OF that] by linarith
  then have "map2 (\<lambda>x y. i64 (x - y)) (sc_load a) (sc_load b) = ?s"
    using a(1) b(1) by (intro map2_i64) fastforce+
  then have eq: "sc_sub_limbs (sc_load a) (sc_load b) = ?s @ [0]"
    using a(1) b(1) by (simp add: sc_sub_limbs_conv)
  have "\<bar>?s ! i\<bar> \<le> 4194302" if "i < 11" for i
    using a(1) b(1) a(3) [of i] a(4) [of i] b(3) [of i] b(4) [of i] that by simp
  then show "in_ivls (sc_sub_limbs (sc_load a) (sc_load b)) sc_short_ivls"
    unfolding eq using a(1) b(1) i [of 11] by (intro in_short_ivls) auto
  show "sc_val 13 (sc_sub_limbs (sc_load a) (sc_load b)) = le_bytes a - le_bytes b"
    unfolding eq using limb_sum_append_zeros [of _ ?s 1] limb_sum_map2(2) [of 12 "sc_load a" "sc_load b"]
      a(1,2) b(1,2) by simp
qed

text \<open>The limbs \<open>c + ab\<close> and \<open>c - ab\<close>, for the three products at once: \<open>sc_mul\<close> is
  the case of \<open>c = 0\<close>.\<close>

lemma length_sc_conv [simp]: "length (sc_conv a b) = 24"
  by (simp add: sc_conv_def)

lemma sc_prod_props:
  assumes "length a = 32" and "length b = 32" and "length c = 12"
    and c: "\<And>i. i < 12 \<Longrightarrow> 0 \<le> c ! i \<and> c ! i < 33554432" and "f = (\<lambda>x y. x + y) \<or> f = (\<lambda>x y. x - y)"
  defines "s \<equiv> map2 (\<lambda>x y. i64 (f x y)) (c @ replicate 12 0) (sc_conv (sc_load a) (sc_load b))"
  shows "in_ivls s sc_prod_ivls" and "sc_val 24 s = f (sc_val 12 c) (le_bytes a * le_bytes b)"
proof -
  let ?c = "c @ replicate 12 0" and ?ab = "sc_conv (sc_load a) (sc_load b)"
  have len: "length ?c = 24" "length ?ab = 24" using assms(3) by simp_all
  have "\<bar>?c ! i\<bar> \<le> 33554432" if "i < 24" for i
    using that c [of i] assms(3) by (auto simp: nth_append)
  moreover have "\<bar>?ab ! i\<bar> \<le> 13510798882111488" if "i < 24" for i
    using that sc_load_props(3) [OF assms(1)] sc_load_props(3) [OF assms(2)] by (intro sc_conv_bound)
  ultimately have i: "\<bar>f (?c ! i) (?ab ! i)\<bar> \<le> 18014398509481984" if "i < 24" for i
    using assms(5) that by fastforce
  have eq: "s = map2 f ?c ?ab"
    unfolding s_def using i len by (intro map2_i64) fastforce+
  have "s ! 23 = 0"
    using assms(5) len by (auto simp: eq nth_append sc_conv_def assms(3))
  then show "in_ivls s sc_prod_ivls"
    using i len by (intro in_prod_ivls) (auto simp: eq)
  have "sc_val 24 ?c = sc_val 12 c"
    using limb_sum_append_zeros [of _ c 12] assms(3) by simp
  then show "sc_val 24 s = f (sc_val 12 c) (le_bytes a * le_bytes b)"
    using assms(5) limb_sum_map2 [of 24 ?c ?ab] len sc_load_props(2) [OF assms(1)] sc_load_props(2) [OF assms(2)]
    by (auto simp: eq sc_conv_val)
qed

text \<open>C13. \<open>sc_muladd\<close> returns the canonical bytes of \<open>c + a * b\<close> modulo the
  group order, for any three 32 byte scalars, reduced or not.\<close>

theorem sc_muladd_correct:
  assumes "length a = 32" and "length b = 32" and "length c = 32"
  shows "length (sc_muladd a b c) = 32
    \<and> le_bytes (sc_muladd a b c) = (le_bytes c + le_bytes a * le_bytes b) mod sc_order"
proof -
  note c = sc_load_props [OF assms(3)]
  note p = sc_prod_props [OF assms(1,2) c(1,3), of "\<lambda>x y. x + y"]
  show ?thesis
    using sc_prod [OF p(1)] p(2) c(2)
    by (simp add: sc_muladd_def sc_muladd_ops_def sc_muladd_limbs_conv [OF c(1)])
qed

text \<open>C14. \<open>sc_mulsub\<close> returns the canonical bytes of \<open>c - a * b\<close> modulo the
  group order (the response of a Schnorr signature), for any three 32 byte scalars.\<close>

theorem sc_mulsub_correct:
  assumes "length a = 32" and "length b = 32" and "length c = 32"
  shows "length (sc_mulsub a b c) = 32
    \<and> le_bytes (sc_mulsub a b c) = (le_bytes c - le_bytes a * le_bytes b) mod sc_order"
proof -
  note c = sc_load_props [OF assms(3)]
  note p = sc_prod_props [OF assms(1,2) c(1,3), of "\<lambda>x y. x - y"]
  show ?thesis
    using sc_prod [OF p(1)] p(2) c(2)
    by (simp add: sc_mulsub_def sc_mulsub_ops_def sc_mulsub_limbs_conv [OF c(1)])
qed

text \<open>C36. \<open>sc_mul\<close> returns the canonical bytes of \<open>a * b\<close> modulo the group
  order.\<close>

theorem sc_mul_correct:
  assumes "length a = 32" and "length b = 32"
  shows "length (sc_mul a b) = 32 \<and> le_bytes (sc_mul a b) = le_bytes a * le_bytes b mod sc_order"
proof -
  let ?z = "replicate 12 (0::int)"
  have "\<And>i. i < 12 \<Longrightarrow> 0 \<le> ?z ! i \<and> ?z ! i < 33554432" by simp
  note p = sc_prod_props [OF assms length_replicate this, of "\<lambda>x y. x + y"]
  have "sc_mul_limbs (sc_load a) (sc_load b)
      = map2 (\<lambda>x y. i64 (x + y)) (?z @ ?z) (sc_conv (sc_load a) (sc_load b))"
    by (rule nth_equalityI) (auto simp: sc_mul_limbs_conv simp flip: replicate_add)
  moreover have "sc_val 12 ?z = 0"
    using limb_sum_append_zeros [of _ "[]" 12] by simp
  ultimately show ?thesis
    using sc_prod [OF p(1)] p(2) by (simp add: sc_mul_def sc_mul_ops_def)
qed

text \<open>C38. \<open>sc_add\<close> returns the canonical bytes of \<open>a + b\<close> modulo the group
  order.\<close>

theorem sc_add_correct:
  assumes "length a = 32" and "length b = 32"
  shows "length (sc_add a b) = 32 \<and> le_bytes (sc_add a b) = (le_bytes a + le_bytes b) mod sc_order"
  using sc_short [OF sc_add_limbs_props(1) [OF assms]] sc_add_limbs_props(2) [OF assms]
  by (simp add: sc_add_def sc_short_ops_def)

text \<open>C37. \<open>sc_sub\<close> returns the canonical bytes of \<open>a - b\<close> modulo the group
  order, also when the difference is negative.\<close>

theorem sc_sub_correct:
  assumes "length a = 32" and "length b = 32"
  shows "length (sc_sub a b) = 32 \<and> le_bytes (sc_sub a b) = (le_bytes a - le_bytes b) mod sc_order"
  using sc_short [OF sc_sub_limbs_props(1) [OF assms]] sc_sub_limbs_props(2) [OF assms]
  by (simp add: sc_sub_def sc_short_ops_def)

section \<open>Checks\<close>

text \<open>The sign of a difference of digit strings is the sign of the first differing digits, which the
  weights 1, 2, 4, \<open>\<dots>\<close> pick out.\<close>

lemma signum_weights:
  assumes "\<And>k. k < n \<Longrightarrow> \<bar>d ! k\<bar> < 2 ^ 32" and "n \<le> length d"
  shows "\<bar>limb_sum (\<lambda>k. k) n (map signum d)\<bar> < 2 ^ n \<and> \<bar>limb_sum (\<lambda>k. 32 * k) n d\<bar> < 2 ^ (32 * n)
    \<and> signum (limb_sum (\<lambda>k. k) n (map signum d)) = signum (limb_sum (\<lambda>k. 32 * k) n d)"
  using assms
proof (induction n)
  case (Suc n)
  define T where "T = limb_sum (\<lambda>k. k) n (map signum d)"
  define D where "D = limb_sum (\<lambda>k. 32 * k) n d"
  define x where "x = d ! n"
  have IH: "\<bar>T\<bar> < 2 ^ n" "\<bar>D\<bar> < 2 ^ (32 * n)" "signum T = signum D"
    using Suc by (simp_all add: T_def D_def)
  have x: "\<bar>x\<bar> < 2 ^ 32" "(map signum d) ! n = signum x" using Suc.prems by (simp_all add: x_def)
  have "\<bar>x * 2 ^ (32 * n)\<bar> \<le> (2 ^ 32 - 1) * 2 ^ (32 * n)"
    unfolding abs_mult using x(1) by (intro mult_mono) auto
  then have D: "\<bar>D + x * 2 ^ (32 * n)\<bar> < 2 ^ (32 * Suc n)"
    using IH(2) by (simp add: power_add)
  have T: "\<bar>T + signum x * 2 ^ n\<bar> < 2 ^ Suc n"
    using IH(1) by (auto simp: signum_def)
  have "signum (T + signum x * 2 ^ n) = signum (D + x * 2 ^ (32 * n))"
  proof (cases x "0 :: int" rule: linorder_cases)
    case equal
    then show ?thesis using IH(3) by (simp add: signum_def)
  next
    case greater
    then have "2 ^ (32 * n) \<le> x * 2 ^ (32 * n)" by simp
    then have "0 < D + x * 2 ^ (32 * n)" "0 < T + 2 ^ n" using IH(1,2) by linarith+
    then show ?thesis using greater by (simp add: signum_def)
  next
    case less
    then have "x * 2 ^ (32 * n) \<le> - 1 * 2 ^ (32 * n)" by (intro mult_right_mono) auto
    then have "D + x * 2 ^ (32 * n) < 0" "T - 2 ^ n < 0" using IH(1,2) by linarith+
    then show ?thesis using less by (simp add: signum_def)
  qed
  with D T show ?case using x(2) by (simp add: T_def D_def x_def)
qed simp

lemma sint_load_4:
  assumes "j + 4 \<le> length p"
  shows "sint (load_4 (drop j p)) = digit (8 * j) 32 (le_bytes p)"
  using load_digits(2) [OF assms] digit_bounds(2) [of "8 * j" 32 "le_bytes p"] by (simp add: sint_small)

text \<open>C16. \<open>sc_check\<close> returns 0 exactly for the canonical scalars, those below the group
  order, and \<open>-1\<close> for every other 32 byte string.\<close>

theorem sc_check_correct:
  assumes "length s = 32"
  shows "sc_check s = (if le_bytes s < sc_order then 0 else - 1)"
proof -
  define x where "x k = digit (32 * k) 32 (le_bytes s)" for k
  define l :: "int list" where "l = [1559614444, 1477600026, 2734136534, 350157278, 0, 0, 0, 268435456]"
  define d where "d = map (\<lambda>k. l ! k - x k) [0..<8]"
  define T where "T = limb_sum (\<lambda>k. k) 8 (map signum d)"
  have upt: "[0..<8] = [0, 1, 2, 3, 4, 5, 6, 7]" by (simp add: upt_rec)
  have load: "sint (load_4 (drop j s)) = digit (8 * j) 32 (le_bytes s)" if "j \<le> 28" for j
    using that assms by (intro sint_load_4) simp
  have "sc_check s = drop_bit 8 T"
    using load [of 0] load [of 4] load [of 8] load [of 12] load [of 16] load [of 20] load [of 24] load [of 28]
    by (simp add: sc_check_def Let_def T_def limb_sum_list upt d_def l_def x_def push_bit_eq_mult add.assoc)
  moreover have "\<bar>d ! k\<bar> < 2 ^ 32" if "k < 8" for k
  proof -
    have "0 \<le> l ! k \<and> l ! k < 2 ^ 32"
      using that by (auto simp: l_def less_Suc_eq eval_nat_numeral)
    then have "\<bar>l ! k - x k\<bar> < 2 ^ 32"
      using digit_bounds [of "32 * k" 32 "le_bytes s"] unfolding x_def by linarith
    then show ?thesis using that by (simp add: d_def)
  qed
  then have "\<bar>T\<bar> < 2 ^ 8 \<and> signum T = signum (limb_sum (\<lambda>k. 32 * k) 8 d)"
    using signum_weights [of 8 d] by (simp add: T_def d_def)
  moreover have "limb_sum (\<lambda>k. 32 * k) 8 d = sc_order - 1 - le_bytes s"
  proof -
    have "limb_sum (\<lambda>k. 32 * k) 8 (map x [0..<8]) = le_bytes s mod 2 ^ 256"
      using limb_sum_digits [of 8 "map x [0..<8]" "\<lambda>k. 32 * k" "le_bytes s"] by (simp add: x_def)
    then have "limb_sum (\<lambda>k. 32 * k) 8 (map x [0..<8]) = le_bytes s"
      using le_bytes_less [of s] by (simp add: assms)
    moreover have "limb_sum (\<lambda>k. 32 * k) 8 l = sc_order - 1"
      by (simp add: limb_sum_list upt l_def sc_order_def)
    moreover have "d = map2 (\<lambda>x y. x - y) l (map x [0..<8])"
      by (rule nth_equalityI) (auto simp: d_def l_def)
    ultimately show ?thesis
      using limb_sum_map2(2) [of 8 l "map x [0..<8]"] by (simp add: l_def)
  qed
  ultimately show ?thesis
    by (auto simp: signum_def drop_bit_eq_div split: if_splits)
qed

text \<open>\<open>sc_isnonzero\<close> returns 1 for a scalar with a nonzero byte and 0 for the zero
  scalar.\<close>

theorem sc_isnonzero_correct:
  assumes "length s = 32"
  shows "sc_isnonzero s = (if le_bytes s = 0 then 0 else 1)"
  using assms by (simp only: sc_isnonzero_def or_bytes_nonzero) simp

section \<open>The functions at concrete scalars\<close>

lemma ones_64: "le_bytes (replicate 64 255) = 2 ^ 512 - 1"
  by code_simp

lemma ones_32: "le_bytes (replicate 32 255) = 2 ^ 256 - 1"
  by code_simp

lemma zeros_32: "le_bytes (replicate 32 0) = 0"
  by code_simp

theorem sc_reduce_witness:
  "le_bytes (take 32 (sc_reduce (replicate 64 255))) = 1627715501170711445284395025044413883736156588369414752970002579683115011840"
  using sc_reduce_correct [of "replicate 64 255"] by (simp add: ones_64 sc_order_def)

theorem sc_reduce32_witness:
  "le_bytes (sc_reduce32 (replicate 32 255)) = 7237005577332262213973186563042994240413239274941949949428319933631315875100"
  using sc_reduce32_correct [of "replicate 32 255"] by (simp add: ones_32 sc_order_def)

theorem sc_muladd_witness:
  "le_bytes (sc_muladd (replicate 32 255) (replicate 32 255) (replicate 32 255)) = 1627715501170711445284395025044413884180033672807372409543633584337253387729"
  using sc_muladd_correct [of "replicate 32 255" "replicate 32 255" "replicate 32 255"]
  by (simp add: ones_32 sc_order_def)

theorem sc_mulsub_witness:
  "le_bytes (sc_mulsub (replicate 32 255) (replicate 32 255) (replicate 32 255)) = 5609290076161550768688791537998580355789328517696619883311055344639924111482"
  using sc_mulsub_correct [of "replicate 32 255" "replicate 32 255" "replicate 32 255"]
  by (simp add: ones_32 sc_order_def)

theorem sc_mul_witness:
  "le_bytes (sc_mul (replicate 32 255) (replicate 32 255)) = 1627715501170711445284395025044413884623910757245330066117264588991391763618"
  using sc_mul_correct [of "replicate 32 255" "replicate 32 255"] by (simp add: ones_32 sc_order_def)

theorem sc_add_witness:
  "le_bytes (sc_add (replicate 32 255) (replicate 32 255)) = 7237005577332262213973186563042994239969362190503992292854688928977177499211"
  using sc_add_correct [of "replicate 32 255" "replicate 32 255"] by (simp add: ones_32 sc_order_def)

theorem sc_sub_witness:
  "le_bytes (sc_sub (replicate 32 0) (replicate 32 255)) = 443877084437957656573631004654138375889"
  using sc_sub_correct [of "replicate 32 0" "replicate 32 255"] by (simp add: ones_32 zeros_32 sc_order_def)

theorem sc_check_witness:
  "sc_check (replicate 32 255) = - 1 \<and> sc_check (replicate 32 0) = 0"
  using sc_check_correct [of "replicate 32 255"] sc_check_correct [of "replicate 32 0"]
  by (simp add: ones_32 zeros_32 sc_order_def)

theorem sc_isnonzero_witness:
  "sc_isnonzero (replicate 32 255) = 1 \<and> sc_isnonzero (replicate 32 0) = 0"
  using sc_isnonzero_correct [of "replicate 32 255"] sc_isnonzero_correct [of "replicate 32 0"]
  by (simp add: ones_32 zeros_32)

end
