(* ===== verification/Field.thy ===== *)
theory Field
  imports Loads
begin

text \<open>
  The arithmetic of the field modulo \<open>2 ^ 255 - 19\<close>, from
  \<^verbatim>\<open>src/src/base/tools/cryptonote/crypto-ops.c\<close>: every function whose name starts with
  \<open>fe_\<close>, and the conversion from bytes that \<open>ge_frombytes_vartime\<close> starts with.

  A field element is \<^verbatim>\<open>typedef int32_t fe[10]\<close>: ten signed limbs with the weights
  \<open>2 ^ 0, 2 ^ 26, 2 ^ 51, 2 ^ 77, \<dots>, 2 ^ 230\<close>, alternately of 26 and 25 bits. Here it is a list
  of ten integers, and every assignment to an \<open>int32_t\<close> or \<open>int64_t\<close> goes through
  \<open>i32\<close> or \<open>i64\<close>. The products compute ten 64 bit sums and then the twelve carries
  \<^verbatim>\<open>carryn = (hn + (1<<25)) >> 26; h(n+1) += carryn; hn -= carryn << 26;\<close> (24 and 25 for odd
  \<open>n\<close>; the carry of \<open>h9\<close> goes to \<open>h0\<close>, times 19). \<open>fe_sq2\<close> repeats the sums
  of \<open>fe_sq\<close> literally before it doubles them, so it uses \<open>fe_sq_limbs\<close> here.
\<close>

type_synonym fe = "int list"

section \<open>Sums\<close>

definition fe_0 :: fe where
  "fe_0 = [0, 0, 0, 0, 0, 0, 0, 0, 0, 0]"

definition fe_1 :: fe where
  "fe_1 = [1, 0, 0, 0, 0, 0, 0, 0, 0, 0]"

definition fe_add :: "fe \<Rightarrow> fe \<Rightarrow> fe" where
  "fe_add f g = map2 (\<lambda>x y. i32 (x + y)) f g"

definition fe_sub :: "fe \<Rightarrow> fe \<Rightarrow> fe" where
  "fe_sub f g = map2 (\<lambda>x y. i32 (x - y)) f g"

definition fe_neg :: "fe \<Rightarrow> fe" where
  "fe_neg f = map (\<lambda>x. i32 (- x)) f"

definition fe_copy :: "fe \<Rightarrow> fe" where
  "fe_copy f = f"

text \<open>The conditional move, on the 32 bit patterns of the limbs, and the condition it asserts.\<close>

definition fe_cmov_limb :: "u32 \<Rightarrow> int \<Rightarrow> int \<Rightarrow> int" where
  "fe_cmov_limb b x y =
     (let f = word_of_int x :: u32; g = word_of_int y; x = (f XOR g) AND (- b) in sint (f XOR x))"

definition fe_cmov :: "fe \<Rightarrow> fe \<Rightarrow> u32 \<Rightarrow> fe" where
  "fe_cmov f g b = map2 (fe_cmov_limb b) f g"

definition fe_cmov_assert :: "u32 \<Rightarrow> bool" where
  "fe_cmov_assert b \<longleftrightarrow> ((b - 1) AND NOT b) OR ((b - 2) AND NOT (b - 1)) = - 1"

section \<open>Products\<close>

definition fe_mul_limbs :: "fe \<Rightarrow> fe \<Rightarrow> fe" where
  "fe_mul_limbs f g =
     (let g1_19 = i32 (19 * g ! 1);
          g2_19 = i32 (19 * g ! 2);
          g3_19 = i32 (19 * g ! 3);
          g4_19 = i32 (19 * g ! 4);
          g5_19 = i32 (19 * g ! 5);
          g6_19 = i32 (19 * g ! 6);
          g7_19 = i32 (19 * g ! 7);
          g8_19 = i32 (19 * g ! 8);
          g9_19 = i32 (19 * g ! 9);
          f1_2 = i32 (2 * f ! 1);
          f3_2 = i32 (2 * f ! 3);
          f5_2 = i32 (2 * f ! 5);
          f7_2 = i32 (2 * f ! 7);
          f9_2 = i32 (2 * f ! 9)
      in [i64 (i64 (f ! 0 * g ! 0) + i64 (f1_2 * g9_19) + i64 (f ! 2 * g8_19) + i64 (f3_2 * g7_19)
           + i64 (f ! 4 * g6_19) + i64 (f5_2 * g5_19) + i64 (f ! 6 * g4_19) + i64 (f7_2 * g3_19)
           + i64 (f ! 8 * g2_19) + i64 (f9_2 * g1_19)),
        i64 (i64 (f ! 0 * g ! 1) + i64 (f ! 1 * g ! 0) + i64 (f ! 2 * g9_19) + i64 (f ! 3 * g8_19)
           + i64 (f ! 4 * g7_19) + i64 (f ! 5 * g6_19) + i64 (f ! 6 * g5_19) + i64 (f ! 7 * g4_19)
           + i64 (f ! 8 * g3_19) + i64 (f ! 9 * g2_19)),
        i64 (i64 (f ! 0 * g ! 2) + i64 (f1_2 * g ! 1) + i64 (f ! 2 * g ! 0) + i64 (f3_2 * g9_19)
           + i64 (f ! 4 * g8_19) + i64 (f5_2 * g7_19) + i64 (f ! 6 * g6_19) + i64 (f7_2 * g5_19)
           + i64 (f ! 8 * g4_19) + i64 (f9_2 * g3_19)),
        i64 (i64 (f ! 0 * g ! 3) + i64 (f ! 1 * g ! 2) + i64 (f ! 2 * g ! 1) + i64 (f ! 3 * g ! 0)
           + i64 (f ! 4 * g9_19) + i64 (f ! 5 * g8_19) + i64 (f ! 6 * g7_19) + i64 (f ! 7 * g6_19)
           + i64 (f ! 8 * g5_19) + i64 (f ! 9 * g4_19)),
        i64 (i64 (f ! 0 * g ! 4) + i64 (f1_2 * g ! 3) + i64 (f ! 2 * g ! 2) + i64 (f3_2 * g ! 1)
           + i64 (f ! 4 * g ! 0) + i64 (f5_2 * g9_19) + i64 (f ! 6 * g8_19) + i64 (f7_2 * g7_19)
           + i64 (f ! 8 * g6_19) + i64 (f9_2 * g5_19)),
        i64 (i64 (f ! 0 * g ! 5) + i64 (f ! 1 * g ! 4) + i64 (f ! 2 * g ! 3) + i64 (f ! 3 * g ! 2)
           + i64 (f ! 4 * g ! 1) + i64 (f ! 5 * g ! 0) + i64 (f ! 6 * g9_19) + i64 (f ! 7 * g8_19)
           + i64 (f ! 8 * g7_19) + i64 (f ! 9 * g6_19)),
        i64 (i64 (f ! 0 * g ! 6) + i64 (f1_2 * g ! 5) + i64 (f ! 2 * g ! 4) + i64 (f3_2 * g ! 3)
           + i64 (f ! 4 * g ! 2) + i64 (f5_2 * g ! 1) + i64 (f ! 6 * g ! 0) + i64 (f7_2 * g9_19)
           + i64 (f ! 8 * g8_19) + i64 (f9_2 * g7_19)),
        i64 (i64 (f ! 0 * g ! 7) + i64 (f ! 1 * g ! 6) + i64 (f ! 2 * g ! 5) + i64 (f ! 3 * g ! 4)
           + i64 (f ! 4 * g ! 3) + i64 (f ! 5 * g ! 2) + i64 (f ! 6 * g ! 1) + i64 (f ! 7 * g ! 0)
           + i64 (f ! 8 * g9_19) + i64 (f ! 9 * g8_19)),
        i64 (i64 (f ! 0 * g ! 8) + i64 (f1_2 * g ! 7) + i64 (f ! 2 * g ! 6) + i64 (f3_2 * g ! 5)
           + i64 (f ! 4 * g ! 4) + i64 (f5_2 * g ! 3) + i64 (f ! 6 * g ! 2) + i64 (f7_2 * g ! 1)
           + i64 (f ! 8 * g ! 0) + i64 (f9_2 * g9_19)),
        i64 (i64 (f ! 0 * g ! 9) + i64 (f ! 1 * g ! 8) + i64 (f ! 2 * g ! 7) + i64 (f ! 3 * g ! 6)
           + i64 (f ! 4 * g ! 5) + i64 (f ! 5 * g ! 4) + i64 (f ! 6 * g ! 3) + i64 (f ! 7 * g ! 2)
           + i64 (f ! 8 * g ! 1) + i64 (f ! 9 * g ! 0))])"

definition fe_sq_limbs :: "fe \<Rightarrow> fe" where
  "fe_sq_limbs f =
     (let f0_2 = i32 (2 * f ! 0);
          f1_2 = i32 (2 * f ! 1);
          f2_2 = i32 (2 * f ! 2);
          f3_2 = i32 (2 * f ! 3);
          f4_2 = i32 (2 * f ! 4);
          f5_2 = i32 (2 * f ! 5);
          f6_2 = i32 (2 * f ! 6);
          f7_2 = i32 (2 * f ! 7);
          f5_38 = i32 (38 * f ! 5);
          f6_19 = i32 (19 * f ! 6);
          f7_38 = i32 (38 * f ! 7);
          f8_19 = i32 (19 * f ! 8);
          f9_38 = i32 (38 * f ! 9)
      in [i64 (i64 (f ! 0 * f ! 0) + i64 (f1_2 * f9_38) + i64 (f2_2 * f8_19) + i64 (f3_2 * f7_38)
           + i64 (f4_2 * f6_19) + i64 (f ! 5 * f5_38)),
        i64 (i64 (f0_2 * f ! 1) + i64 (f ! 2 * f9_38) + i64 (f3_2 * f8_19) + i64 (f ! 4 * f7_38)
           + i64 (f5_2 * f6_19)),
        i64 (i64 (f0_2 * f ! 2) + i64 (f1_2 * f ! 1) + i64 (f3_2 * f9_38) + i64 (f4_2 * f8_19)
           + i64 (f5_2 * f7_38) + i64 (f ! 6 * f6_19)),
        i64 (i64 (f0_2 * f ! 3) + i64 (f1_2 * f ! 2) + i64 (f ! 4 * f9_38) + i64 (f5_2 * f8_19)
           + i64 (f ! 6 * f7_38)),
        i64 (i64 (f0_2 * f ! 4) + i64 (f1_2 * f3_2) + i64 (f ! 2 * f ! 2) + i64 (f5_2 * f9_38)
           + i64 (f6_2 * f8_19) + i64 (f ! 7 * f7_38)),
        i64 (i64 (f0_2 * f ! 5) + i64 (f1_2 * f ! 4) + i64 (f2_2 * f ! 3) + i64 (f ! 6 * f9_38)
           + i64 (f7_2 * f8_19)),
        i64 (i64 (f0_2 * f ! 6) + i64 (f1_2 * f5_2) + i64 (f2_2 * f ! 4) + i64 (f3_2 * f ! 3)
           + i64 (f7_2 * f9_38) + i64 (f ! 8 * f8_19)),
        i64 (i64 (f0_2 * f ! 7) + i64 (f1_2 * f ! 6) + i64 (f2_2 * f ! 5) + i64 (f3_2 * f ! 4)
           + i64 (f ! 8 * f9_38)),
        i64 (i64 (f0_2 * f ! 8) + i64 (f1_2 * f7_2) + i64 (f2_2 * f ! 6) + i64 (f3_2 * f5_2)
           + i64 (f ! 4 * f ! 4) + i64 (f ! 9 * f9_38)),
        i64 (i64 (f0_2 * f ! 9) + i64 (f1_2 * f ! 8) + i64 (f2_2 * f ! 7) + i64 (f3_2 * f ! 6)
           + i64 (f4_2 * f ! 5))])"

definition fe_bits :: "nat \<Rightarrow> nat" where
  "fe_bits n = (if even n then 26 else 25)"

definition fe_carry :: "nat \<Rightarrow> int list \<Rightarrow> int list" where
  "fe_carry n h =
     (let carry = i64 (h ! n + 2 ^ (fe_bits n - 1)) div 2 ^ fe_bits n;
          t = (if n = 9 then h[0 := i64 (h ! 0 + i64 (carry * 19))]
               else h[Suc n := i64 (h ! Suc n + carry)])
      in t[n := i64 (t ! n - i64 (carry * 2 ^ fe_bits n))])"

definition fe_carries :: "nat list" where
  "fe_carries = [0, 4, 1, 5, 2, 6, 3, 7, 4, 8, 9, 0]"

definition fe_mul :: "fe \<Rightarrow> fe \<Rightarrow> fe" where
  "fe_mul f g = map i32 (run_ops fe_carry fe_carries (fe_mul_limbs f g))"

definition fe_sq :: "fe \<Rightarrow> fe" where
  "fe_sq f = map i32 (run_ops fe_carry fe_carries (fe_sq_limbs f))"

definition fe_sq2 :: "fe \<Rightarrow> fe" where
  "fe_sq2 f = map i32 (run_ops fe_carry fe_carries (map (\<lambda>h. i64 (h + h)) (fe_sq_limbs f)))"

section \<open>Powers\<close>

text \<open>\<open>fe_sq_loop n t\<close> is \<^verbatim>\<open>for (i = 0; i < n; ++i) { fe_sq(t, t); }\<close>\<close>

primrec fe_sq_loop :: "nat \<Rightarrow> fe \<Rightarrow> fe" where
  "fe_sq_loop 0 t = t"
| "fe_sq_loop (Suc n) t = fe_sq_loop n (fe_sq t)"

definition fe_invert :: "fe \<Rightarrow> fe" where
  "fe_invert z =
     (let t0 = fe_sq z;
          t1 = fe_sq t0;
          t1 = fe_sq t1;
          t1 = fe_mul z t1;
          t0 = fe_mul t0 t1;
          t2 = fe_sq t0;
          t1 = fe_mul t1 t2;
          t2 = fe_sq t1;
          t2 = fe_sq_loop 4 t2;
          t1 = fe_mul t2 t1;
          t2 = fe_sq t1;
          t2 = fe_sq_loop 9 t2;
          t2 = fe_mul t2 t1;
          t3 = fe_sq t2;
          t3 = fe_sq_loop 19 t3;
          t2 = fe_mul t3 t2;
          t2 = fe_sq t2;
          t2 = fe_sq_loop 9 t2;
          t1 = fe_mul t2 t1;
          t2 = fe_sq t1;
          t2 = fe_sq_loop 49 t2;
          t2 = fe_mul t2 t1;
          t3 = fe_sq t2;
          t3 = fe_sq_loop 99 t3;
          t2 = fe_mul t3 t2;
          t2 = fe_sq t2;
          t2 = fe_sq_loop 49 t2;
          t1 = fe_mul t2 t1;
          t1 = fe_sq t1;
          t1 = fe_sq_loop 4 t1
      in fe_mul t1 t0)"

definition fe_divpowm1 :: "fe \<Rightarrow> fe \<Rightarrow> fe" where
  "fe_divpowm1 u v =
     (let v3 = fe_sq v;
          v3 = fe_mul v3 v;
          uv7 = fe_sq v3;
          uv7 = fe_mul uv7 v;
          uv7 = fe_mul uv7 u;
          t0 = fe_sq uv7;
          t1 = fe_sq t0;
          t1 = fe_sq t1;
          t1 = fe_mul uv7 t1;
          t0 = fe_mul t0 t1;
          t0 = fe_sq t0;
          t0 = fe_mul t1 t0;
          t1 = fe_sq t0;
          t1 = fe_sq_loop 4 t1;
          t0 = fe_mul t1 t0;
          t1 = fe_sq t0;
          t1 = fe_sq_loop 9 t1;
          t1 = fe_mul t1 t0;
          t2 = fe_sq t1;
          t2 = fe_sq_loop 19 t2;
          t1 = fe_mul t2 t1;
          t1 = fe_sq_loop 10 t1;
          t0 = fe_mul t1 t0;
          t1 = fe_sq t0;
          t1 = fe_sq_loop 49 t1;
          t1 = fe_mul t1 t0;
          t2 = fe_sq t1;
          t2 = fe_sq_loop 99 t2;
          t1 = fe_mul t2 t1;
          t1 = fe_sq_loop 50 t1;
          t0 = fe_mul t1 t0;
          t0 = fe_sq t0;
          t0 = fe_sq t0;
          t0 = fe_mul t0 uv7;
          t0 = fe_mul t0 v3
      in fe_mul t0 u)"

section \<open>Bytes\<close>

text \<open>The quotient by the prime, the carries of \<open>fe_tobytes\<close> (in 32 bits) and its stores.\<close>

primrec fe_quot :: "fe \<Rightarrow> nat \<Rightarrow> int" where
  "fe_quot h 0 = i32 (i32 (19 * h ! 9) + 16777216) div 33554432"
| "fe_quot h (Suc n) = i32 (h ! n + fe_quot h n) div 2 ^ fe_bits n"

definition fe_floor :: "nat \<Rightarrow> fe \<Rightarrow> fe" where
  "fe_floor n h =
     (let carry = h ! n div 2 ^ fe_bits n;
          t = (if n = 9 then h else h[Suc n := i32 (h ! Suc n + carry)])
      in t[n := i32 (t ! n - i32 (carry * 2 ^ fe_bits n))])"

definition fe_store :: "fe \<Rightarrow> bytes" where
  "fe_store h = [
    word_of_int (drop_bit 0 (h ! 0)),
    word_of_int (drop_bit 8 (h ! 0)),
    word_of_int (drop_bit 16 (h ! 0)),
    word_of_int (drop_bit 24 (h ! 0) OR push_bit 2 (h ! 1)),
    word_of_int (drop_bit 6 (h ! 1)),
    word_of_int (drop_bit 14 (h ! 1)),
    word_of_int (drop_bit 22 (h ! 1) OR push_bit 3 (h ! 2)),
    word_of_int (drop_bit 5 (h ! 2)),
    word_of_int (drop_bit 13 (h ! 2)),
    word_of_int (drop_bit 21 (h ! 2) OR push_bit 5 (h ! 3)),
    word_of_int (drop_bit 3 (h ! 3)),
    word_of_int (drop_bit 11 (h ! 3)),
    word_of_int (drop_bit 19 (h ! 3) OR push_bit 6 (h ! 4)),
    word_of_int (drop_bit 2 (h ! 4)),
    word_of_int (drop_bit 10 (h ! 4)),
    word_of_int (drop_bit 18 (h ! 4)),
    word_of_int (drop_bit 0 (h ! 5)),
    word_of_int (drop_bit 8 (h ! 5)),
    word_of_int (drop_bit 16 (h ! 5)),
    word_of_int (drop_bit 24 (h ! 5) OR push_bit 1 (h ! 6)),
    word_of_int (drop_bit 7 (h ! 6)),
    word_of_int (drop_bit 15 (h ! 6)),
    word_of_int (drop_bit 23 (h ! 6) OR push_bit 3 (h ! 7)),
    word_of_int (drop_bit 5 (h ! 7)),
    word_of_int (drop_bit 13 (h ! 7)),
    word_of_int (drop_bit 21 (h ! 7) OR push_bit 4 (h ! 8)),
    word_of_int (drop_bit 4 (h ! 8)),
    word_of_int (drop_bit 12 (h ! 8)),
    word_of_int (drop_bit 20 (h ! 8) OR push_bit 6 (h ! 9)),
    word_of_int (drop_bit 2 (h ! 9)),
    word_of_int (drop_bit 10 (h ! 9)),
    word_of_int (drop_bit 18 (h ! 9))]"

definition fe_tobytes :: "fe \<Rightarrow> bytes" where
  "fe_tobytes h =
     (let q = fe_quot h 10;
          t = h[0 := i32 (h ! 0 + i32 (19 * q))]
      in fe_store (run_ops fe_floor [0, 1, 2, 3, 4, 5, 6, 7, 8, 9] t))"

definition fe_isnegative :: "fe \<Rightarrow> int" where
  "fe_isnegative f = uint (fe_tobytes f ! 0 AND 1)"

definition fe_isnonzero :: "fe \<Rightarrow> int" where
  "fe_isnonzero f = drop_bit 8 (uint (foldr (OR) (fe_tobytes f) 0) - 1) + 1"

text \<open>The limbs and the carries of the conversion from bytes.\<close>

definition fe_load :: "bytes \<Rightarrow> int list" where
  "fe_load s = [
    sint (load_4 s),
    sint (push_bit 6 (load_3 (drop 4 s))),
    sint (push_bit 5 (load_3 (drop 7 s))),
    sint (push_bit 3 (load_3 (drop 10 s))),
    sint (push_bit 2 (load_3 (drop 13 s))),
    sint (load_4 (drop 16 s)),
    sint (push_bit 7 (load_3 (drop 20 s))),
    sint (push_bit 5 (load_3 (drop 23 s))),
    sint (push_bit 4 (load_3 (drop 26 s))),
    sint (push_bit 2 (load_3 (drop 29 s) AND 8388607))]"

text \<open>The test that rejects the bytes of a number that is not below the prime.\<close>

definition fe_load_overflow :: "int list \<Rightarrow> bool" where
  "fe_load_overflow h \<longleftrightarrow>
     h ! 9 = 33554428 \<and> h ! 8 = 268435440 \<and> h ! 7 = 536870880 \<and> h ! 6 = 2147483520 \<and>
     h ! 5 = 4294967295 \<and> h ! 4 = 67108860 \<and> h ! 3 = 134217720 \<and> h ! 2 = 536870880 \<and>
     h ! 1 = 1073741760 \<and> h ! 0 \<ge> 4294967277"

definition fe_frombytes :: "bytes \<Rightarrow> fe option" where
  "fe_frombytes s =
     (let h = fe_load s
      in if fe_load_overflow h then None
         else Some (map i32 (run_ops fe_carry [9, 1, 3, 5, 7, 0, 2, 4, 6, 8] h)))"

end
