(* ===== verification/Field_Correct.thy ===== *)
theory Field_Correct
  imports Field
begin

text \<open>
  The arithmetic modulo \<open>2 ^ 255 - 19\<close> is correct. The interval run of the twelve carries shows
  that nothing overflows for operands within the documented bounds and that the results are within the
  documented bounds; the interpretation \<open>fec\<close> of \<open>limb_machine\<close> shows that the carries keep
  the value modulo the prime, and a polynomial identity that the ten sums are the product. The locale
  \<open>power_chain\<close> states what a chain of squarings and multiplications relies on; its
  interpretation \<open>fep\<close> gives the exponents that \<open>fe_invert\<close> and
  \<open>fe_divpowm1\<close> raise their arguments to.
\<close>

section \<open>The value of a field element\<close>

definition fe_prime :: int where
  "fe_prime = 2 ^ 255 - 19"

definition fe_weight :: "nat \<Rightarrow> nat" where
  "fe_weight i = (51 * i + 1) div 2"

abbreviation fe_val :: "fe \<Rightarrow> int" where
  "fe_val \<equiv> limb_sum fe_weight 10"

lemma fe_weight_Suc: "fe_weight (Suc n) = fe_weight n + fe_bits n"
  by (cases "even n") (auto simp: fe_weight_def fe_bits_def elim!: evenE oddE)

lemma fe_weight_0 [simp]: "fe_weight 0 = 0"
  by (simp add: fe_weight_def)

text \<open>The documented bounds of the limbs: \<open>1.65 * 2 ^ 26\<close> and \<open>1.65 * 2 ^ 25\<close> before a
  product, \<open>1.01 * 2 ^ 25\<close> and \<open>1.01 * 2 ^ 24\<close> after it.\<close>

definition fe_ivls :: "int \<Rightarrow> int \<Rightarrow> ivl list" where
  "fe_ivls a b = map (\<lambda>i. if even i then (- a, a) else (- b, b)) [0..<10]"

abbreviation fe_loose :: "fe \<Rightarrow> bool" where
  "fe_loose f \<equiv> in_ivls f (fe_ivls 110729625 55364812)"

abbreviation fe_tight :: "fe \<Rightarrow> bool" where
  "fe_tight f \<equiv> in_ivls f (fe_ivls 33889976 16944988)"

section \<open>The carries\<close>

definition fe_acarry :: "nat \<Rightarrow> ivl list \<Rightarrow> ivl list option" where
  "fe_acarry n B =
     (let m = 2 ^ fe_bits n; r = 2 ^ (fe_bits n - 1);
          t = iadd (B ! n) (r, r); c = ishift m t;
          j = (if n = 9 then 0 else Suc n); d = (if n = 9 then iscale 19 c else c);
          q = iadd (B ! j) d
      in if n < 10 \<and> length B = 10 \<and> fits64 t \<and> fits64 (iscale m c) \<and> fits64 d \<and> fits64 q
         then Some (B[j := q, n := (- r, r - 1)]) else None)"

definition fe_live :: "nat \<Rightarrow> nat \<Rightarrow> nat option" where
  "fe_live c n = (if n = 10 then Some 10 else None)"

lemma fe_bits_pos: "(2::int) ^ fe_bits n = 2 * 2 ^ (fe_bits n - 1)"
  by (simp add: fe_bits_def)

lemma fe_carry_eq:
  assumes "in_ivls h B" and "fe_acarry n B = Some B'"
  defines "r \<equiv> 2 ^ (fe_bits n - 1)" and "m \<equiv> 2 ^ fe_bits n"
  defines "c \<equiv> (h ! n + r) div m"
  shows "fe_carry n h = (if n = 9 then h[0 := h ! 0 + c * 19, 9 := h ! 9 - c * m]
      else h[Suc n := h ! Suc n + c, n := h ! n - c * m])"
    and "in_ivls (fe_carry n h) B'"
proof -
  let ?t = "iadd (B ! n) (r, r)"
  let ?c = "ishift m ?t"
  let ?j = "if n = 9 then 0 else Suc n" and ?d = "if n = 9 then iscale 19 ?c else ?c"
  let ?q = "iadd (B ! ?j) ?d"
  have B: "n < 10" "length B = 10" "fits64 ?t" "fits64 (iscale m ?c)" "fits64 ?d" "fits64 ?q"
    "B' = B[?j := ?q, n := (- r, r - 1)]"
    using assms(2) by (auto simp: fe_acarry_def Let_def r_def m_def split: if_splits)
  have j: "?j < 10" using B(1) by auto
  have t: "in_ivl (h ! n + r) ?t"
    using B(1,2) by (intro in_iadd in_ivls_nth [OF assms(1)] in_ivl_const) simp
  have c: "in_ivl c ?c" unfolding c_def by (intro in_ishift t) (simp add: m_def)
  have d: "in_ivl (if n = 9 then c * 19 else c) ?d"
    using c by (auto intro: in_iscale)
  have q: "in_ivl (h ! ?j + (if n = 9 then c * 19 else c)) ?q"
    using j B(2) d by (intro in_iadd in_ivls_nth [OF assms(1)]) simp_all
  have m: "m = 2 * r" "0 < r" by (simp_all add: m_def r_def fe_bits_pos)
  have left: "h ! n - c * m = (h ! n + r) mod m - r"
    by (simp add: c_def minus_div_mult_eq_mod [symmetric])
  have "0 \<le> (h ! n + r) mod m \<and> (h ! n + r) mod m < m" using m by simp
  then have l: "in_ivl (h ! n - c * m) (- r, r - 1)"
    using m unfolding left in_ivl_def by simp
  have "r \<le> 2 ^ 25" by (auto simp: r_def fe_bits_def)
  then have r: "fits64 (- r, r - 1)" using m(2) by (simp add: fits64_def)
  note w = i64_in [OF t B(3)] i64_in [OF in_iscale [OF c] B(4)] i64_in [OF l r]
  have "fe_carry n h = (if n = 9 then h[0 := h ! 0 + c * 19] else h[Suc n := h ! Suc n + c])[n := h ! n - c * m]"
    using w i64_in [OF d B(5)] i64_in [OF q B(6)] unfolding c_def
    by (auto simp: fe_carry_def Let_def r_def m_def)
  then show eq: "fe_carry n h = (if n = 9 then h[0 := h ! 0 + c * 19, 9 := h ! 9 - c * m]
      else h[Suc n := h ! Suc n + c, n := h ! n - c * m])"
    by simp
  show "in_ivls (fe_carry n h) B'"
    unfolding eq B(7) using assms(1) q l
    by (cases "n = 9") (auto intro!: in_ivls_update)
qed

lemma fe_carry_val:
  assumes "in_ivls h B" and "fe_acarry n B = Some B'"
  shows "fe_prime dvd fe_val (fe_carry n h) - fe_val h"
proof -
  define c where "c = (h ! n + 2 ^ (fe_bits n - 1)) div 2 ^ fe_bits n"
  have B: "n < 10" "length B = 10"
    using assms(2) by (auto simp: fe_acarry_def Let_def split: if_splits)
  have len: "length h = 10" using in_ivls_length [OF assms(1)] B(2) by simp
  note eq = fe_carry_eq(1) [OF assms, folded c_def]
  show ?thesis
  proof (cases "n = 9")
    case True
    have "fe_val (fe_carry n h) = fe_val h + c * 19 - c * 2 ^ fe_bits 9 * 2 ^ fe_weight 9"
      using len eq by (simp add: True limb_sum_update)
    then have "fe_val (fe_carry n h) - fe_val h = fe_prime * - c"
      by (simp add: fe_prime_def fe_bits_def fe_weight_def)
    then show ?thesis by simp
  next
    case False
    then have "fe_val (fe_carry n h) = fe_val h"
      using len B by (simp add: eq limb_sum_update fe_weight_Suc power_add)
    then show ?thesis by simp
  qed
qed

interpretation fec: limb_machine fe_carry fe_acarry fe_live "limb_sum fe_weight" fe_prime
proof
  show "in_ivls (fe_carry c s) B'" if "in_ivls s B" "fe_acarry c B = Some B'" for s B c B'
    using fe_carry_eq(2) [OF that] .
  show "fe_prime dvd limb_sum fe_weight n' (fe_carry c s) - limb_sum fe_weight n s"
    if "in_ivls s B" "fe_acarry c B = Some B'" "fe_live c n = Some n'" for s B c B' n n'
    using fe_carry_val [OF that(1,2)] that(3) by (auto simp: fe_live_def split: if_splits)
qed

section \<open>The sums of a product\<close>

text \<open>The ten sums of a product over the integers, and the multiple of the prime they leave out.\<close>

definition fe_conv :: "fe \<Rightarrow> fe \<Rightarrow> int list" where
  "fe_conv f g = [
    (f ! 0 * g ! 0) + 38 * (f ! 1 * g ! 9) + 19 * (f ! 2 * g ! 8) + 38 * (f ! 3 * g ! 7) + 19 * (f ! 4 * g ! 6) + 38 * (f ! 5 * g ! 5) + 19 * (f ! 6 * g ! 4) + 38 * (f ! 7 * g ! 3) + 19 * (f ! 8 * g ! 2) + 38 * (f ! 9 * g ! 1),
    (f ! 0 * g ! 1) + (f ! 1 * g ! 0) + 19 * (f ! 2 * g ! 9) + 19 * (f ! 3 * g ! 8) + 19 * (f ! 4 * g ! 7) + 19 * (f ! 5 * g ! 6) + 19 * (f ! 6 * g ! 5) + 19 * (f ! 7 * g ! 4) + 19 * (f ! 8 * g ! 3) + 19 * (f ! 9 * g ! 2),
    (f ! 0 * g ! 2) + 2 * (f ! 1 * g ! 1) + (f ! 2 * g ! 0) + 38 * (f ! 3 * g ! 9) + 19 * (f ! 4 * g ! 8) + 38 * (f ! 5 * g ! 7) + 19 * (f ! 6 * g ! 6) + 38 * (f ! 7 * g ! 5) + 19 * (f ! 8 * g ! 4) + 38 * (f ! 9 * g ! 3),
    (f ! 0 * g ! 3) + (f ! 1 * g ! 2) + (f ! 2 * g ! 1) + (f ! 3 * g ! 0) + 19 * (f ! 4 * g ! 9) + 19 * (f ! 5 * g ! 8) + 19 * (f ! 6 * g ! 7) + 19 * (f ! 7 * g ! 6) + 19 * (f ! 8 * g ! 5) + 19 * (f ! 9 * g ! 4),
    (f ! 0 * g ! 4) + 2 * (f ! 1 * g ! 3) + (f ! 2 * g ! 2) + 2 * (f ! 3 * g ! 1) + (f ! 4 * g ! 0) + 38 * (f ! 5 * g ! 9) + 19 * (f ! 6 * g ! 8) + 38 * (f ! 7 * g ! 7) + 19 * (f ! 8 * g ! 6) + 38 * (f ! 9 * g ! 5),
    (f ! 0 * g ! 5) + (f ! 1 * g ! 4) + (f ! 2 * g ! 3) + (f ! 3 * g ! 2) + (f ! 4 * g ! 1) + (f ! 5 * g ! 0) + 19 * (f ! 6 * g ! 9) + 19 * (f ! 7 * g ! 8) + 19 * (f ! 8 * g ! 7) + 19 * (f ! 9 * g ! 6),
    (f ! 0 * g ! 6) + 2 * (f ! 1 * g ! 5) + (f ! 2 * g ! 4) + 2 * (f ! 3 * g ! 3) + (f ! 4 * g ! 2) + 2 * (f ! 5 * g ! 1) + (f ! 6 * g ! 0) + 38 * (f ! 7 * g ! 9) + 19 * (f ! 8 * g ! 8) + 38 * (f ! 9 * g ! 7),
    (f ! 0 * g ! 7) + (f ! 1 * g ! 6) + (f ! 2 * g ! 5) + (f ! 3 * g ! 4) + (f ! 4 * g ! 3) + (f ! 5 * g ! 2) + (f ! 6 * g ! 1) + (f ! 7 * g ! 0) + 19 * (f ! 8 * g ! 9) + 19 * (f ! 9 * g ! 8),
    (f ! 0 * g ! 8) + 2 * (f ! 1 * g ! 7) + (f ! 2 * g ! 6) + 2 * (f ! 3 * g ! 5) + (f ! 4 * g ! 4) + 2 * (f ! 5 * g ! 3) + (f ! 6 * g ! 2) + 2 * (f ! 7 * g ! 1) + (f ! 8 * g ! 0) + 38 * (f ! 9 * g ! 9),
    (f ! 0 * g ! 9) + (f ! 1 * g ! 8) + (f ! 2 * g ! 7) + (f ! 3 * g ! 6) + (f ! 4 * g ! 5) + (f ! 5 * g ! 4) + (f ! 6 * g ! 3) + (f ! 7 * g ! 2) + (f ! 8 * g ! 1) + (f ! 9 * g ! 0)]"

definition fe_conv_quot :: "fe \<Rightarrow> fe \<Rightarrow> int" where
  "fe_conv_quot f g =
     2 * (f ! 1 * g ! 9) + 1 * (f ! 2 * g ! 8) + 67108864 * (f ! 2 * g ! 9) + 2 * (f ! 3 * g ! 7) + 67108864 * (f ! 3 * g ! 8) + 4503599627370496 * (f ! 3 * g ! 9) + 1 * (f ! 4 * g ! 6) + 67108864 * (f ! 4 * g ! 7) + 2251799813685248 * (f ! 4 * g ! 8) + 151115727451828646838272 * (f ! 4 * g ! 9) + 2 * (f ! 5 * g ! 5) + 67108864 * (f ! 5 * g ! 6) + 4503599627370496 * (f ! 5 * g ! 7) + 151115727451828646838272 * (f ! 5 * g ! 8) + 10141204801825835211973625643008 * (f ! 5 * g ! 9) + 1 * (f ! 6 * g ! 4) + 67108864 * (f ! 6 * g ! 5) + 2251799813685248 * (f ! 6 * g ! 6) + 151115727451828646838272 * (f ! 6 * g ! 7) + 5070602400912917605986812821504 * (f ! 6 * g ! 8) + 340282366920938463463374607431768211456 * (f ! 6 * g ! 9) + 2 * (f ! 7 * g ! 3) + 67108864 * (f ! 7 * g ! 4) + 4503599627370496 * (f ! 7 * g ! 5) + 151115727451828646838272 * (f ! 7 * g ! 6) + 10141204801825835211973625643008 * (f ! 7 * g ! 7) + 340282366920938463463374607431768211456 * (f ! 7 * g ! 8) + 22835963083295358096932575511191922182123945984 * (f ! 7 * g ! 9) + 1 * (f ! 8 * g ! 2) + 67108864 * (f ! 8 * g ! 3) + 2251799813685248 * (f ! 8 * g ! 4) + 151115727451828646838272 * (f ! 8 * g ! 5) + 5070602400912917605986812821504 * (f ! 8 * g ! 6) + 340282366920938463463374607431768211456 * (f ! 8 * g ! 7) + 11417981541647679048466287755595961091061972992 * (f ! 8 * g ! 8) + 766247770432944429179173513575154591809369561091801088 * (f ! 8 * g ! 9) + 2 * (f ! 9 * g ! 1) + 67108864 * (f ! 9 * g ! 2) + 4503599627370496 * (f ! 9 * g ! 3) + 151115727451828646838272 * (f ! 9 * g ! 4) + 10141204801825835211973625643008 * (f ! 9 * g ! 5) + 340282366920938463463374607431768211456 * (f ! 9 * g ! 6) + 22835963083295358096932575511191922182123945984 * (f ! 9 * g ! 7) + 766247770432944429179173513575154591809369561091801088 * (f ! 9 * g ! 8) + 51422017416287688817342786954917203280710495801049370729644032 * (f ! 9 * g ! 9)"

lemma upt_10: "[0..<10] = [0, 1, 2, 3, 4, 5, 6, 7, 8, 9]"
  by (simp add: upt_rec)

lemma fe_val_expand:
  "fe_val f = f ! 0 + f ! 1 * 67108864 + f ! 2 * 2251799813685248 + f ! 3 * 151115727451828646838272
    + f ! 4 * 5070602400912917605986812821504 + f ! 5 * 340282366920938463463374607431768211456
    + f ! 6 * 11417981541647679048466287755595961091061972992
    + f ! 7 * 766247770432944429179173513575154591809369561091801088
    + f ! 8 * 25711008708143844408671393477458601640355247900524685364822016
    + f ! 9 * 1725436586697640946858688965569256363112777243042596638790631055949824"
  by (simp add: limb_sum_list upt_10 fe_weight_def)

lemma fe_val_list:
  "fe_val [a0, a1, a2, a3, a4, a5, a6, a7, a8, a9] = a0 + a1 * 67108864 + a2 * 2251799813685248
    + a3 * 151115727451828646838272 + a4 * 5070602400912917605986812821504
    + a5 * 340282366920938463463374607431768211456 + a6 * 11417981541647679048466287755595961091061972992
    + a7 * 766247770432944429179173513575154591809369561091801088
    + a8 * 25711008708143844408671393477458601640355247900524685364822016
    + a9 * 1725436586697640946858688965569256363112777243042596638790631055949824"
  by (simp add: fe_val_expand)

lemma fe_conv_val: "fe_val f * fe_val g = fe_val (fe_conv f g) + fe_prime * fe_conv_quot f g"
proof -
  have p: "fe_prime = 57896044618658097711785492504343953926634992332820282019728792003956564819949"
    by (simp add: fe_prime_def)
  show ?thesis
    unfolding fe_conv_def fe_val_list fe_val_expand [of f] fe_val_expand [of g] fe_conv_quot_def p
    by algebra
qed

lemma fe_conv_mod: "fe_val (fe_conv f g) mod fe_prime = fe_val f * fe_val g mod fe_prime"
  by (simp add: fe_conv_val)

text \<open>The bounds of the sums of loose operands.\<close>

definition fe_conv_bounds :: "int list" where
  "fe_conv_bounds = [1526500696134443485,
    944100830127147000,
    1195452352106279851,
    723401934772749000,
    864404008078116217,
    502703039418351000,
    533355664049952583,
    282004144063953000,
    202307320021788949,
    61305248709555000]"

definition fe_lim :: "nat \<Rightarrow> int" where
  "fe_lim i = (if even i then 110729625 else 55364812)"

lemma fe_ivls_nth: "i < 10 \<Longrightarrow> fe_ivls a b ! i = (if even i then (- a, a) else (- b, b))"
  by (simp add: fe_ivls_def)

lemma length_fe_ivls [simp]: "length (fe_ivls a b) = 10"
  by (simp add: fe_ivls_def)

lemma in_fe_ivls:
  "in_ivls f (fe_ivls a b) \<longleftrightarrow> length f = 10 \<and> (\<forall>i<10. \<bar>f ! i\<bar> \<le> (if even i then a else b))"
proof -
  have "in_ivl x (if e then (- a, a) else (- b, b)) \<longleftrightarrow> \<bar>x\<bar> \<le> (if e then a else b)" for x e
    by (auto simp: in_ivl_def)
  then show ?thesis by (auto simp: list_all2_conv_all_nth fe_ivls_nth split del: if_split)
qed

lemma fe_loose_lim: "fe_loose f \<Longrightarrow> i < 10 \<Longrightarrow> \<bar>f ! i\<bar> \<le> fe_lim i"
  by (simp add: in_fe_ivls fe_lim_def split: if_splits)

lemma fe_conv_bound:
  assumes "fe_loose f" and "fe_loose g"
  shows "list_all2 (\<lambda>x b. \<bar>x\<bar> \<le> b) (fe_conv f g) fe_conv_bounds"
proof -
  have fg: "\<bar>f ! i * g ! j\<bar> \<le> fe_lim i * fe_lim j" if "i < 10" "j < 10" for i j
    using that assms by (intro abs_mult_bound fe_loose_lim)
  have cfg: "\<bar>numeral c * (f ! i * g ! j)\<bar> \<le> numeral c * (fe_lim i * fe_lim j)" if "i < 10" "j < 10" for c i j
    using fg [OF that] unfolding abs_mult [of "numeral c"] by simp
  show ?thesis
    unfolding fe_conv_def fe_conv_bounds_def list_all2_Cons list_all2_Nil
    by (intro conjI refl; rule order_trans, (rule abs_add_bound)+,
      (rule cfg, simp, simp | rule fg, simp, simp)+, simp add: fe_lim_def)
qed

text \<open>No precomputed multiple of a limb overflows, so the sums are those over the integers.\<close>

lemma fe_small_multiple:
  assumes "fe_loose f" and "i < 10"
  shows "i32 (19 * f ! i) = 19 * f ! i" and "i32 (2 * f ! i) = 2 * f ! i"
    and "odd i \<Longrightarrow> i32 (38 * f ! i) = 38 * f ! i"
  using fe_loose_lim [OF assms] by (auto simp: fe_lim_def abs_le_iff intro!: i32_id split: if_splits)

lemma fe_product:
  assumes "fe_loose f" and "fe_loose g" and "i < 10" and "j < 10"
  shows "i64 (f ! i * g ! j) = f ! i * g ! j" "i64 (2 * f ! i * g ! j) = 2 * f ! i * g ! j"
    "i64 (f ! i * (19 * g ! j)) = f ! i * (19 * g ! j)" "i64 (2 * f ! i * (19 * g ! j)) = 2 * f ! i * (19 * g ! j)"
    "i64 (f ! i * (38 * g ! j)) = f ! i * (38 * g ! j)" "i64 (2 * f ! i * (38 * g ! j)) = 2 * f ! i * (38 * g ! j)"
    "i64 (2 * f ! i * (2 * g ! j)) = 2 * f ! i * (2 * g ! j)"
proof -
  have f: "\<bar>f ! i\<bar> \<le> 110729625" and g: "\<bar>g ! j\<bar> \<le> 110729625"
    using fe_loose_lim [OF assms(1,3)] fe_loose_lim [OF assms(2,4)] by (auto simp: fe_lim_def split: if_splits)
  have *: "i64 (x * y) = x * y" if "\<bar>x\<bar> \<le> 221459250" "\<bar>y\<bar> \<le> 4207725750" for x y
    using abs_mult_bound [OF that] by (intro i64_id) auto
  show "i64 (f ! i * g ! j) = f ! i * g ! j" "i64 (2 * f ! i * g ! j) = 2 * f ! i * g ! j"
    "i64 (f ! i * (19 * g ! j)) = f ! i * (19 * g ! j)" "i64 (2 * f ! i * (19 * g ! j)) = 2 * f ! i * (19 * g ! j)"
    "i64 (f ! i * (38 * g ! j)) = f ! i * (38 * g ! j)" "i64 (2 * f ! i * (38 * g ! j)) = 2 * f ! i * (38 * g ! j)"
    "i64 (2 * f ! i * (2 * g ! j)) = 2 * f ! i * (2 * g ! j)"
    using f g by (intro *; simp)+
qed

lemma fe_mul_limbs_conv:
  assumes "fe_loose f" and "fe_loose g"
  shows "fe_mul_limbs f g = map i64 (fe_conv f g)"
  unfolding fe_mul_limbs_def Let_def fe_conv_def
  using fe_small_multiple(1) [OF assms(2)] fe_small_multiple(2) [OF assms(1)]
  by (simp add: fe_product [OF assms] fe_product [OF assms, simplified]) (simp add: algebra_simps)

lemma fe_sq_limbs_conv:
  assumes "fe_loose f"
  shows "fe_sq_limbs f = map i64 (fe_conv f f)"
  unfolding fe_sq_limbs_def Let_def fe_conv_def
  using fe_small_multiple [OF assms]
  by (simp add: fe_product [OF assms assms] fe_product [OF assms assms, simplified]) (simp add: algebra_simps)

section \<open>Products\<close>

text \<open>The carries after a product, run once on the intervals of a doubled product: nothing overflows
  and the limbs end within the documented bounds.\<close>

definition ivl_le :: "ivl \<Rightarrow> ivl \<Rightarrow> bool" where
  "ivl_le I J \<longleftrightarrow> fst J \<le> fst I \<and> snd I \<le> snd J"

lemma in_ivls_mono:
  assumes "in_ivls s B" and "list_all2 ivl_le B C"
  shows "in_ivls s C"
  by (rule list_all2_trans [OF _ assms]) (auto simp: in_ivl_def ivl_le_def)

definition fe_carries_end :: "nat list \<Rightarrow> ivl list \<Rightarrow> bool" where
  "fe_carries_end ops B =
     (case orun fe_acarry ops B of None \<Rightarrow> False
      | Some B' \<Rightarrow> list_all2 ivl_le B' (fe_ivls 33889976 16944988))"

lemma fe_carries_ok: "fe_carries_end fe_carries (map (\<lambda>b. (- 2 * b, 2 * b)) fe_conv_bounds)"
  by code_simp

lemma fe_live_run: "orun fe_live cs 10 = Some 10"
  by (induction cs) (auto simp: fe_live_def)

lemma map_i32_tight: "fe_tight s \<Longrightarrow> map i32 s = s"
  by (rule nth_equalityI) (auto simp: in_fe_ivls abs_le_iff intro!: i32_id split: if_splits)

lemma fe_carries_run:
  assumes "fe_carries_end ops B" and "in_ivls h B"
  shows "fe_tight (map i32 (run_ops fe_carry ops h))"
    and "fe_val (map i32 (run_ops fe_carry ops h)) mod fe_prime = fe_val h mod fe_prime"
proof -
  obtain B' where B': "orun fe_acarry ops B = Some B'" "list_all2 ivl_le B' (fe_ivls 33889976 16944988)"
    using assms(1) by (auto simp: fe_carries_end_def split: option.splits)
  have t: "fe_tight (run_ops fe_carry ops h)"
    by (rule in_ivls_mono [OF fec.run_sound [OF assms(2) B'(1)] B'(2)])
  then show "fe_tight (map i32 (run_ops fe_carry ops h))" by (simp only: map_i32_tight)
  show "fe_val (map i32 (run_ops fe_carry ops h)) mod fe_prime = fe_val h mod fe_prime"
    unfolding map_i32_tight [OF t] by (rule fec.run_mod [OF assms(2) B'(1) fe_live_run])
qed

lemma fe_conv_scaled:
  assumes "fe_loose f" and "fe_loose g" and "c = 1 \<or> c = 2"
  shows "in_ivls (map (\<lambda>x. c * x) (fe_conv f g)) (map (\<lambda>b. (- 2 * b, 2 * b)) fe_conv_bounds)"
    and "map (\<lambda>x. i64 (c * x)) (fe_conv f g) = map (\<lambda>x. c * x) (fe_conv f g)"
proof -
  have len: "length (fe_conv f g) = length fe_conv_bounds"
    and b: "\<bar>fe_conv f g ! i\<bar> \<le> fe_conv_bounds ! i" if "i < length fe_conv_bounds" for i
    using fe_conv_bound [OF assms(1,2)] that by (auto simp: list_all2_conv_all_nth)
  have len: "length (fe_conv f g) = length fe_conv_bounds"
    using fe_conv_bound [OF assms(1,2)] by (simp add: list_all2_conv_all_nth)
  have big: "\<forall>b\<in>set fe_conv_bounds. b \<le> 2305843009213693951" by (simp add: fe_conv_bounds_def)
  show "in_ivls (map (\<lambda>x. c * x) (fe_conv f g)) (map (\<lambda>b. (- 2 * b, 2 * b)) fe_conv_bounds)"
    unfolding list_all2_conv_all_nth using len b assms(3) by (fastforce simp: in_ivl_def)
  show "map (\<lambda>x. i64 (c * x)) (fe_conv f g) = map (\<lambda>x. c * x) (fe_conv f g)"
  proof (rule nth_equalityI)
    fix i assume "i < length (map (\<lambda>x. i64 (c * x)) (fe_conv f g))"
    then have i: "i < length fe_conv_bounds" using len by simp
    then have "\<bar>fe_conv f g ! i\<bar> \<le> 2305843009213693951" using b [OF i] big nth_mem [OF i] by fastforce
    then have "i64 (c * fe_conv f g ! i) = c * fe_conv f g ! i" using assms(3) by (intro i64_id) auto
    then show "map (\<lambda>x. i64 (c * x)) (fe_conv f g) ! i = map (\<lambda>x. c * x) (fe_conv f g) ! i"
      using i len by simp
  qed simp
qed

lemma limb_sum_scale: "n \<le> length s \<Longrightarrow> limb_sum w n (map (\<lambda>x. c * x) s) = c * limb_sum w n s"
  by (induction n) (auto simp: algebra_simps)

lemma length_fe_conv [simp]: "length (fe_conv f g) = 10"
  by (simp add: fe_conv_def)

lemma fe_product_run:
  assumes "fe_loose f" and "fe_loose g" and "c = 1 \<or> c = 2"
    and "h = map (\<lambda>x. i64 (c * x)) (fe_conv f g)"
  shows "fe_tight (map i32 (run_ops fe_carry fe_carries h))"
    and "fe_val (map i32 (run_ops fe_carry fe_carries h)) mod fe_prime = c * (fe_val f * fe_val g) mod fe_prime"
proof -
  note p = fe_conv_scaled [OF assms(1-3)]
  have "fe_val (map (\<lambda>x. c * x) (fe_conv f g)) mod fe_prime = c * (fe_val (fe_conv f g) mod fe_prime) mod fe_prime"
    by (simp add: limb_sum_scale mod_mult_right_eq)
  also have "\<dots> = c * (fe_val f * fe_val g) mod fe_prime"
    by (simp only: fe_conv_mod mod_mult_right_eq)
  finally show "fe_tight (map i32 (run_ops fe_carry fe_carries h))"
    and "fe_val (map i32 (run_ops fe_carry fe_carries h)) mod fe_prime = c * (fe_val f * fe_val g) mod fe_prime"
    using fe_carries_run [OF fe_carries_ok p(1)] by (simp_all add: assms(4) p(2))
qed

lemma fe_mul_ok:
  assumes "fe_loose f" and "fe_loose g"
  shows "fe_tight (fe_mul f g)" and "fe_val (fe_mul f g) mod fe_prime = fe_val f * fe_val g mod fe_prime"
  using fe_product_run [OF assms, of 1] by (simp_all add: fe_mul_def fe_mul_limbs_conv [OF assms])

lemma fe_sq_ok:
  assumes "fe_loose f"
  shows "fe_tight (fe_sq f)" and "fe_val (fe_sq f) mod fe_prime = fe_val f * fe_val f mod fe_prime"
  using fe_product_run [OF assms assms, of 1] by (simp_all add: fe_sq_def fe_sq_limbs_conv [OF assms])

lemma fe_sq2_ok:
  assumes "fe_loose f"
  shows "fe_tight (fe_sq2 f)" and "fe_val (fe_sq2 f) mod fe_prime = 2 * (fe_val f * fe_val f) mod fe_prime"
proof -
  have "map (\<lambda>h. i64 (h + h)) (fe_sq_limbs f) = map (\<lambda>x. i64 (2 * x)) (fe_conv f f)"
    using fe_conv_scaled(2) [OF assms assms, of 1] by (simp add: fe_sq_limbs_conv [OF assms] o_def)
  then show "fe_tight (fe_sq2 f)" and "fe_val (fe_sq2 f) mod fe_prime = 2 * (fe_val f * fe_val f) mod fe_prime"
    using fe_product_run [OF assms assms, of 2] by (simp_all only: fe_sq2_def) simp_all
qed

section \<open>Sums\<close>

lemma in_fe_ivls_mono:
  "in_ivls f (fe_ivls a b) \<Longrightarrow> a \<le> a' \<Longrightarrow> b \<le> b' \<Longrightarrow> in_ivls f (fe_ivls a' b')"
  by (fastforce simp: in_fe_ivls)

lemma fe_tight_loose [simp, intro]: "fe_tight f \<Longrightarrow> fe_loose f"
  by (erule in_fe_ivls_mono) simp_all

lemma in_fe_ivlsD: "in_ivls f (fe_ivls a b) \<Longrightarrow> i < 10 \<Longrightarrow> \<bar>f ! i\<bar> \<le> (if even i then a else b)"
  by (simp add: in_fe_ivls)

lemma fe_map2_val:
  assumes "length f = 10" and "length g = 10"
  shows "fe_val (map2 (\<lambda>x y. x + y) f g) = fe_val f + fe_val g"
    and "fe_val (map2 (\<lambda>x y. x - y) f g) = fe_val f - fe_val g"
    and "fe_val (map (\<lambda>x. - x) f) = - fe_val f"
  using assms by (simp_all add: fe_val_expand algebra_simps)

lemma fe_add_ok:
  assumes "in_ivls f (fe_ivls a b)" and "in_ivls g (fe_ivls c d)" and "a + c \<le> 2147483647" and "b + d \<le> 2147483647"
  shows "in_ivls (fe_add f g) (fe_ivls (a + c) (b + d))" and "fe_val (fe_add f g) = fe_val f + fe_val g"
    and "in_ivls (fe_sub f g) (fe_ivls (a + c) (b + d))" and "fe_val (fe_sub f g) = fe_val f - fe_val g"
proof -
  have len: "length f = 10" "length g = 10" using assms by (simp_all add: in_fe_ivls)
  have b: "\<bar>f ! i + g ! i\<bar> \<le> (if even i then a + c else b + d)" "\<bar>f ! i - g ! i\<bar> \<le> (if even i then a + c else b + d)"
    if "i < 10" for i
    using in_fe_ivlsD [OF assms(1) that] in_fe_ivlsD [OF assms(2) that] by (auto split: if_splits)
  have w: "i32 (f ! i + g ! i) = f ! i + g ! i" "i32 (f ! i - g ! i) = f ! i - g ! i" if "i < 10" for i
    using b [OF that] assms(3,4) by (auto intro!: i32_id split: if_splits)
  have add: "fe_add f g = map2 (\<lambda>x y. x + y) f g" and sub: "fe_sub f g = map2 (\<lambda>x y. x - y) f g"
    using len w by (auto simp: fe_add_def fe_sub_def set_zip)
  show "in_ivls (fe_add f g) (fe_ivls (a + c) (b + d))" "in_ivls (fe_sub f g) (fe_ivls (a + c) (b + d))"
    unfolding add sub using len b by (simp_all add: in_fe_ivls)
  show "fe_val (fe_add f g) = fe_val f + fe_val g" "fe_val (fe_sub f g) = fe_val f - fe_val g"
    unfolding add sub using len by (simp_all only: fe_map2_val)
qed

lemma fe_neg_ok:
  assumes "in_ivls f (fe_ivls a b)" and "a \<le> 2147483647" and "b \<le> 2147483647"
  shows "in_ivls (fe_neg f) (fe_ivls a b)" and "fe_val (fe_neg f) = - fe_val f"
proof -
  have len: "length f = 10" using assms by (simp add: in_fe_ivls)
  have "i32 (- (f ! i)) = - (f ! i)" if "i < 10" for i
    using in_fe_ivlsD [OF assms(1) that] assms(2,3) by (auto intro!: i32_id split: if_splits)
  then have neg: "fe_neg f = map (\<lambda>x. - x) f" using len by (auto simp: fe_neg_def in_set_conv_nth)
  show "in_ivls (fe_neg f) (fe_ivls a b)" unfolding neg using assms(1) by (simp add: in_fe_ivls)
  show "fe_val (fe_neg f) = - fe_val f" unfolding neg using fe_map2_val(3) [OF len len] .
qed

lemma fe_cmov_ok:
  assumes "in_ivls f (fe_ivls a b)" and "in_ivls g (fe_ivls a b)" and "a \<le> 2147483647" and "b \<le> 2147483647"
  shows "fe_cmov f g 0 = f" and "fe_cmov f g 1 = g"
proof -
  have len: "length f = 10" "length g = 10" using assms by (simp_all add: in_fe_ivls)
  have id: "sint (word_of_int x :: u32) = x" if "\<bar>x\<bar> \<le> 2147483647" for x
    using that by (auto simp: signed_of_int signed_take_bit_int_eq_self_iff)
  have x: "\<bar>f ! i\<bar> \<le> 2147483647" "\<bar>g ! i\<bar> \<le> 2147483647" if "i < 10" for i
    using in_fe_ivlsD [OF assms(1) that] in_fe_ivlsD [OF assms(2) that] assms(3,4) by (auto split: if_splits)
  show "fe_cmov f g 0 = f" and "fe_cmov f g 1 = g"
    using len x by (auto simp: fe_cmov_def fe_cmov_limb_def Let_def id intro!: nth_equalityI)
qed

lemma fe_cmov_assert_ok: "fe_cmov_assert 0" "fe_cmov_assert 1"
  by (simp_all add: fe_cmov_assert_def)

section \<open>Powers\<close>

text \<open>What a chain of squarings and multiplications computes: \<open>x\<close> stands for
  \<open>u ^ a * v ^ b\<close> modulo the prime. The locale has the laws of the products that such a chain
  relies on.\<close>

definition power_of :: "('a \<Rightarrow> bool) \<Rightarrow> ('a \<Rightarrow> int) \<Rightarrow> int \<Rightarrow> int \<Rightarrow> int \<Rightarrow> nat \<Rightarrow> nat \<Rightarrow> 'a \<Rightarrow> bool" where
  "power_of ok val p u v a b x \<longleftrightarrow> ok x \<and> val x mod p = u ^ a * v ^ b mod p"

lemma power_of_let:
  "power_of ok val p u v a b x \<Longrightarrow> (\<And>t. power_of ok val p u v a b t \<Longrightarrow> power_of ok val p u v c d (f t)) \<Longrightarrow>
    power_of ok val p u v c d (Let x f)"
  by simp

locale power_chain =
  fixes mul :: "'a \<Rightarrow> 'a \<Rightarrow> 'a" and sq :: "'a \<Rightarrow> 'a" and loop :: "nat \<Rightarrow> 'a \<Rightarrow> 'a"
    and ok :: "'a \<Rightarrow> bool" and val :: "'a \<Rightarrow> int" and p :: int
  assumes mul_ok: "ok x \<Longrightarrow> ok y \<Longrightarrow> ok (mul x y)"
    and mul_val: "ok x \<Longrightarrow> ok y \<Longrightarrow> val (mul x y) mod p = val x * val y mod p"
    and sq_ok: "ok x \<Longrightarrow> ok (sq x)"
    and sq_val: "ok x \<Longrightarrow> val (sq x) mod p = val x * val x mod p"
    and loop_0: "loop 0 x = x"
    and loop_Suc: "loop (Suc n) x = loop n (sq x)"
begin

lemma power_mul:
  assumes "power_of ok val p u v a b x" and "power_of ok val p u v c d y"
  shows "power_of ok val p u v (a + c) (b + d) (mul x y)"
proof -
  have ok: "ok x" "ok y" using assms by (simp_all add: power_of_def)
  have "val (mul x y) mod p = (val x mod p) * (val y mod p) mod p"
    by (simp only: mul_val [OF ok] mod_mult_eq)
  also have "\<dots> = (u ^ a * v ^ b mod p) * (u ^ c * v ^ d mod p) mod p"
    using assms by (simp only: power_of_def)
  also have "\<dots> = (u ^ a * v ^ b) * (u ^ c * v ^ d) mod p"
    by (rule mod_mult_eq)
  finally show ?thesis using assms by (simp add: power_of_def mul_ok power_add ac_simps)
qed

lemma power_sq:
  assumes "power_of ok val p u v a b x"
  shows "power_of ok val p u v (2 * a) (2 * b) (sq x)"
proof -
  have "val (sq x) mod p = val (mul x x) mod p" using assms by (simp add: power_of_def sq_val mul_val)
  then show ?thesis using power_mul [OF assms assms] assms by (simp add: power_of_def sq_ok mult_2)
qed

lemma power_loop:
  "power_of ok val p u v a b x \<Longrightarrow> power_of ok val p u v (2 ^ n * a) (2 ^ n * b) (loop n x)"
proof (induction n arbitrary: x a b)
  case (Suc n)
  show ?case using Suc.IH [OF power_sq [OF Suc.prems]] by (simp add: loop_Suc ac_simps)
qed (simp add: loop_0)

lemma power_eq:
  assumes "power_of ok val p u v a b x" and "power_of ok val p u v c d y" and "a + c = e" and "b + d = f"
  shows "power_of ok val p u v e f (mul x y)"
  using power_mul [OF assms(1,2)] assms(3,4) by simp

end

interpretation fep: power_chain fe_mul fe_sq fe_sq_loop fe_loose fe_val fe_prime
proof
  fix x y :: fe
  assume x: "fe_loose x"
  note sq = fe_sq_ok [OF x]
  show "fe_loose (fe_sq x)" "fe_val (fe_sq x) mod fe_prime = fe_val x * fe_val x mod fe_prime"
    by (rule fe_tight_loose [OF sq(1)], rule sq(2))
  assume y: "fe_loose y"
  note mul = fe_mul_ok [OF x y]
  show "fe_loose (fe_mul x y)" "fe_val (fe_mul x y) mod fe_prime = fe_val x * fe_val y mod fe_prime"
    by (rule fe_tight_loose [OF mul(1)], rule mul(2))
qed simp_all

abbreviation fe_power :: "int \<Rightarrow> int \<Rightarrow> nat \<Rightarrow> nat \<Rightarrow> fe \<Rightarrow> bool" where
  "fe_power \<equiv> power_of fe_loose fe_val fe_prime"

lemma fe_invert_power:
  assumes "fe_loose z"
  shows "fe_power (fe_val z) 1 (2 ^ 255 - 21) 0 (fe_invert z)"
proof -
  have z: "fe_power (fe_val z) 1 1 0 z" using assms by (simp add: power_of_def)
  note steps = fep.power_mul fep.power_sq fep.power_loop
  show ?thesis
    unfolding fe_invert_def
    by ((rule power_of_let, (rule steps z | assumption)+)+, rule fep.power_eq, assumption, assumption)
      simp_all
qed

lemma fe_divpowm1_power:
  assumes "fe_loose u" and "fe_loose v"
  shows "fe_power (fe_val u) (fe_val v) (2 ^ 252 - 2) (7 * (2 ^ 252 - 3) + 3) (fe_divpowm1 u v)"
proof -
  have u: "fe_power (fe_val u) (fe_val v) 1 0 u" and v: "fe_power (fe_val u) (fe_val v) 0 1 v"
    using assms by (simp_all add: power_of_def)
  note steps = fep.power_mul fep.power_sq fep.power_loop
  show ?thesis
    unfolding fe_divpowm1_def
    by ((rule power_of_let, (rule steps u v | assumption)+)+, rule fep.power_eq, assumption, rule u)
      simp_all
qed

lemma fe_let_tight: "fe_loose x \<Longrightarrow> (\<And>t. fe_loose t \<Longrightarrow> fe_tight (f t)) \<Longrightarrow> fe_tight (Let x f)"
  by simp

lemma fe_sq_loop_loose: "fe_loose x \<Longrightarrow> fe_loose (fe_sq_loop n x)"
  by (induction n arbitrary: x) (simp_all add: fep.sq_ok)

lemma fe_powers_tight:
  "fe_loose z \<Longrightarrow> fe_tight (fe_invert z)" "fe_loose u \<Longrightarrow> fe_loose v \<Longrightarrow> fe_tight (fe_divpowm1 u v)"
  unfolding fe_invert_def fe_divpowm1_def
  by ((rule fe_let_tight, (rule fep.mul_ok fep.sq_ok fe_sq_loop_loose | assumption)+)+, rule fe_mul_ok,
    assumption, assumption)+

end
