(* ===== verification/Field_Bytes.thy ===== *)
theory Field_Bytes
  imports Field_Correct
begin

text \<open>
  Field elements and bytes. \<open>fe_tobytes\<close> returns the canonical bytes of the value of the limbs
  modulo the prime: its quotient is the exact quotient by the prime, although it only divides by
  powers of two, and its carries turn the limbs into digits. \<open>fe_frombytes\<close> refuses exactly the
  encodings that are not below the prime.
\<close>

section \<open>Bytes\<close>

lemma div_chain: "(x + y div 2 ^ a) div 2 ^ b = (y + x * 2 ^ a) div 2 ^ (a + b)" for x y :: int
proof -
  have "(y + x * 2 ^ a) div 2 ^ (a + b) = (y + x * 2 ^ a) div 2 ^ a div 2 ^ b"
    by (simp add: power_add zdiv_zmult2_eq)
  then show ?thesis by (simp add: add.commute)
qed

lemma abs_div_bound: "\<bar>x\<bar> \<le> k * m \<Longrightarrow> 0 < m \<Longrightarrow> \<bar>x div m\<bar> \<le> k" for x k m :: int
proof -
  assume *: "\<bar>x\<bar> \<le> k * m" "0 < m"
  then have "x \<le> k * m" "(- k) * m \<le> x" by auto
  note mono = this [THEN zdiv_mono1, OF *(2)]
  have "k * m div m = k" "(- k) * m div m = - k" using *(2) by (intro nonzero_mult_div_cancel_right; simp)+
  with mono show ?thesis by linarith
qed

text \<open>Limbs a little over \<open>1.65\<close> times their range: partial sums stay below twice their weight.\<close>

definition fe_wide :: "fe \<Rightarrow> bool" where
  "fe_wide h \<longleftrightarrow> length h = 10 \<and> (\<forall>i<10. \<bar>h ! i\<bar> \<le> fe_lim i + 1000)"

lemma fe_partial_sum:
  assumes "fe_wide h"
  shows "n \<le> 10 \<Longrightarrow> \<bar>limb_sum fe_weight n h\<bar> \<le> 2 * 2 ^ fe_weight n"
proof (induction n)
  case (Suc n)
  have "\<bar>h ! n\<bar> \<le> fe_lim n + 1000" using assms Suc.prems by (simp add: fe_wide_def)
  then have "\<bar>h ! n * 2 ^ fe_weight n\<bar> \<le> (fe_lim n + 1000) * 2 ^ fe_weight n"
    unfolding abs_mult by (intro mult_mono) auto
  then have "\<bar>limb_sum fe_weight (Suc n) h\<bar> \<le> (fe_lim n + 1002) * 2 ^ fe_weight n"
    using Suc by (simp add: distrib_right)
  also have "\<dots> \<le> (2 * 2 ^ fe_bits n) * 2 ^ fe_weight n"
    by (intro mult_right_mono) (auto simp: fe_lim_def fe_bits_def)
  finally show ?case by (simp add: fe_weight_Suc power_add ac_simps)
qed simp

lemma fe_loose_wide: "fe_loose h \<Longrightarrow> fe_wide h"
  using fe_loose_lim by (fastforce simp: fe_wide_def in_fe_ivls)

lemma fe_quot_chain:
  assumes "fe_loose h"
  defines "q0 \<equiv> (19 * h ! 9 + 16777216) div 33554432"
  shows "n \<le> 10 \<Longrightarrow> fe_quot h n = (limb_sum fe_weight n h + q0) div 2 ^ fe_weight n"
    and "\<bar>q0\<bar> \<le> 32"
proof -
  have h9: "\<bar>h ! 9\<bar> \<le> 55364812" using fe_loose_lim [OF assms(1), of 9] by (simp add: fe_lim_def)
  show q0: "\<bar>q0\<bar> \<le> 32" unfolding q0_def using h9 by (intro abs_div_bound) auto
  show "n \<le> 10 \<Longrightarrow> fe_quot h n = (limb_sum fe_weight n h + q0) div 2 ^ fe_weight n"
  proof (induction n)
    case 0
    have "i32 (19 * h ! 9) = 19 * h ! 9" "i32 (19 * h ! 9 + 16777216) = 19 * h ! 9 + 16777216"
      using h9 by (auto intro!: i32_id)
    then show ?case by (simp add: q0_def)
  next
    case (Suc n)
    let ?q = "(limb_sum fe_weight n h + q0) div 2 ^ fe_weight n"
    have "\<bar>limb_sum fe_weight n h + q0\<bar> \<le> 2 * 2 ^ fe_weight n + 32"
      using fe_partial_sum [OF fe_loose_wide [OF assms(1)], of n] Suc.prems q0 by simp
    also have "\<dots> \<le> 34 * 2 ^ fe_weight n" by simp
    finally have "\<bar>?q\<bar> \<le> 34" by (intro abs_div_bound) simp_all
    then have "i32 (h ! n + ?q) = h ! n + ?q"
      using fe_loose_lim [OF assms(1), of n] Suc.prems by (auto simp: fe_lim_def intro!: i32_id split: if_splits)
    then show ?case
      using Suc by (simp add: div_chain fe_weight_Suc ac_simps)
  qed
qed

text \<open>The quotient: the rounding of \<open>19 * h9\<close> makes up for the difference between dividing by
  the prime and by \<open>2 ^ 255\<close>.\<close>

lemma fe_quot_correct:
  assumes "fe_loose h"
  shows "fe_quot h 10 = fe_val h div fe_prime" and "\<bar>fe_val h div fe_prime\<bar> \<le> 3"
proof -
  define q0 where "q0 = (19 * h ! 9 + 16777216) div 33554432"
  define H where "H = fe_val h"
  define r where "r = H mod fe_prime"
  define q where "q = H div fe_prime"
  define e where "e = limb_sum fe_weight 9 h"
  have w9: "fe_weight 9 = 230" "fe_weight 10 = 255" by (simp_all add: fe_weight_def)
  have p: "fe_prime = 2 ^ 255 - 19" by (rule fe_prime_def)
  have H: "H = e + h ! 9 * 2 ^ 230"
    using limb_sum.simps(2) [of fe_weight 9 h] unfolding H_def e_def by (simp add: w9 del: limb_sum.simps)
  have e: "\<bar>e\<bar> \<le> 2 * 2 ^ 230"
    using fe_partial_sum [OF fe_loose_wide [OF assms], of 9] by (simp add: e_def w9)
  have "\<bar>H\<bar> \<le> 2 * 2 ^ 255"
    using fe_partial_sum [OF fe_loose_wide [OF assms], of 10] by (simp add: H_def w9)
  then show q: "\<bar>fe_val h div fe_prime\<bar> \<le> 3"
    unfolding H_def by (intro abs_div_bound) (simp_all add: p)
  have r: "0 \<le> r" "r < fe_prime" unfolding r_def by (simp_all add: p)
  have Hqr: "H = fe_prime * q + r" by (simp add: q_def r_def)
  have "19 * h ! 9 + 16777216 = 33554432 * q0 + (19 * h ! 9 + 16777216) mod 33554432"
    unfolding q0_def by (rule mult_div_mod_eq [symmetric])
  moreover have "0 \<le> (19 * h ! 9 + 16777216) mod 33554432" "(19 * h ! 9 + 16777216) mod 33554432 < 33554432"
    by simp_all
  ultimately have q0: "33554432 * q0 \<le> 19 * h ! 9 + 16777216" "19 * h ! 9 - 16777216 < 33554432 * q0"
    by linarith+
  have "0 \<le> r - 19 * q + q0" and "r - 19 * q + q0 < 2 ^ 255"
    using q0 e q r Hqr H unfolding p H_def [symmetric] q_def [symmetric] by auto
  then have "(r - 19 * q + q0) div 2 ^ 255 = 0" by simp
  moreover have "H + q0 = (r - 19 * q + q0) + q * 2 ^ 255" using Hqr by (simp add: p algebra_simps)
  ultimately have "(H + q0) div 2 ^ 255 = q" by simp
  then show "fe_quot h 10 = fe_val h div fe_prime"
    using fe_quot_chain(1) [OF assms, of 10] by (simp add: q_def H_def q0_def w9)
qed

text \<open>The carries of \<open>fe_tobytes\<close> turn the limbs into digits.\<close>

lemma digit_add_multiple: "p + w \<le> k \<Longrightarrow> 2 ^ k dvd u - v \<Longrightarrow> digit p w u = digit p w v"
proof -
  assume *: "p + w \<le> k" "2 ^ k dvd u - v"
  then obtain z where "u = v + 2 ^ k * z" by (metis dvd_def diff_eq_eq add.commute)
  moreover obtain j where "k = p + (w + j)" using *(1) by (metis le_Suc_ex add.assoc)
  ultimately have "u = v + (2 ^ w * (2 ^ j * z)) * 2 ^ p" by (simp add: power_add ac_simps)
  then show ?thesis by (simp add: digit_def)
qed

lemma fe_weight_mono: "m \<le> n \<Longrightarrow> fe_weight m \<le> fe_weight n"
  by (simp add: fe_weight_def div_le_mono)

lemma fe_partial_dvd: "m \<le> n \<Longrightarrow> 2 ^ fe_weight m dvd limb_sum fe_weight n h - limb_sum fe_weight m h"
proof (induction n)
  case (Suc n)
  show ?case
  proof (cases "m \<le> n")
    case True
    have "2 ^ fe_weight m dvd h ! n * 2 ^ fe_weight n"
      using fe_weight_mono [OF True] by (intro dvd_mult le_imp_power_dvd)
    then have "2 ^ fe_weight m dvd (limb_sum fe_weight n h - limb_sum fe_weight m h) + h ! n * 2 ^ fe_weight n"
      using Suc.IH [OF True] by (rule dvd_add [rotated])
    then show ?thesis by (simp add: algebra_simps)
  qed (use Suc.prems in \<open>simp add: le_Suc_eq\<close>)
qed simp

lemma fe_floor_run:
  assumes "fe_wide h"
  shows "k \<le> 10 \<Longrightarrow> run_ops fe_floor [0..<k] h =
    map (\<lambda>i. if i < k then digit (fe_weight i) (fe_bits i) (fe_val h)
      else if i = k then h ! k + limb_sum fe_weight k h div 2 ^ fe_weight k else h ! i) [0..<10]"
proof (induction k)
  case 0
  have "length h = 10" using assms by (simp add: fe_wide_def)
  then show ?case by (auto intro!: nth_equalityI)
next
  case (Suc k)
  define S where "S = limb_sum fe_weight k h"
  define x where "x = h ! k + S div 2 ^ fe_weight k"
  define c where "c = x div 2 ^ fe_bits k"
  let ?s = "map (\<lambda>i. if i < k then digit (fe_weight i) (fe_bits i) (fe_val h)
      else if i = k then x else h ! i) [0..<10]"
  have k: "k < 10" using Suc.prems by simp
  have lim: "\<bar>h ! i\<bar> \<le> 110730625" if "i < 10" for i
    using assms that by (auto simp: fe_wide_def fe_lim_def split: if_splits)
  have c: "c = limb_sum fe_weight (Suc k) h div 2 ^ fe_weight (Suc k)"
    by (simp add: c_def x_def S_def div_chain fe_weight_Suc)
  have cb: "\<bar>c\<bar> \<le> 2"
    unfolding c using fe_partial_sum [OF assms, of "Suc k"] Suc.prems by (intro abs_div_bound) auto
  have left: "x - c * 2 ^ fe_bits k = x mod 2 ^ fe_bits k" by (simp add: c_def minus_div_mult_eq_mod)
  have "digit (fe_weight k) (fe_bits k) (fe_val h) = digit (fe_weight k) (fe_bits k) (limb_sum fe_weight (Suc k) h)"
    using Suc.prems fe_partial_dvd [of "Suc k" 10 h] by (intro digit_add_multiple) (auto simp: fe_weight_Suc)
  also have "\<dots> = x mod 2 ^ fe_bits k"
    by (simp add: digit_def x_def S_def add.commute)
  finally have d: "x mod 2 ^ fe_bits k = digit (fe_weight k) (fe_bits k) (fe_val h)" ..
  have bits: "(2::int) ^ fe_bits k \<le> 67108864" "0 < (2::int) ^ fe_bits k" by (auto simp: fe_bits_def)
  have "\<bar>c * 2 ^ fe_bits k\<bar> \<le> 2 * 67108864" using cb bits by (intro abs_mult_bound) auto
  then have w: "i32 (c * 2 ^ fe_bits k) = c * 2 ^ fe_bits k" by (intro i32_id) auto
  have "0 \<le> x mod 2 ^ fe_bits k" "x mod 2 ^ fe_bits k < 2 ^ fe_bits k" using bits by simp_all
  then have w2: "i32 (x - c * 2 ^ fe_bits k) = x - c * 2 ^ fe_bits k"
    using bits unfolding left by (intro i32_id) linarith+
  have w3: "i32 (h ! Suc k + c) = h ! Suc k + c" if "k \<noteq> 9"
    using lim [of "Suc k"] cb k that by (intro i32_id) auto
  have IH: "run_ops fe_floor [0..<k] h = ?s"
    using Suc.IH k unfolding x_def S_def by (simp only: less_imp_le)
  have "run_ops fe_floor [0..<Suc k] h = fe_floor k ?s"
    using IH k by (simp add: run_ops_append)
  also have "\<dots> = map (\<lambda>i. if i < Suc k then digit (fe_weight i) (fe_bits i) (fe_val h)
      else if i = Suc k then h ! Suc k + c else h ! i) [0..<10]"
    using k w w2 w3 left d
    by (intro nth_equalityI) (auto simp: fe_floor_def Let_def c_def [symmetric] nth_list_update less_Suc_eq)
  finally show ?case by (simp only: c)
qed

lemma length_fe_store [simp]: "length (fe_store s) = 32"
  by (simp add: fe_store_def)

lemma fe_store_correct:
  assumes "\<And>i. i < 10 \<Longrightarrow> s ! i = digit (fe_weight i) (fe_bits i) v" and "0 \<le> v" and "v < 2 ^ 255"
  shows "le_bytes (fe_store s) = v"
proof -
  have "v div 2 ^ 230 < 2 ^ 25" using assms(3) by (intro int_div_less) simp_all
  moreover have "0 \<le> v div 2 ^ 230" using assms(2) by (simp add: pos_imp_zdiv_nonneg_iff)
  ultimately have top: "digit 230 26 v = digit 230 25 v" by (simp add: digit_def)
  have ds: "s ! 0 = digit 0 26 v" "s ! 1 = digit 26 25 v" "s ! 2 = digit 51 26 v" "s ! 3 = digit 77 25 v"
    "s ! 4 = digit 102 26 v" "s ! 5 = digit 128 25 v" "s ! 6 = digit 153 26 v" "s ! 7 = digit 179 25 v"
    "s ! 8 = digit 204 26 v" "s ! 9 = digit 230 26 v"
    using assms(1) [of 0] assms(1) [of 1] assms(1) [of 2] assms(1) [of 3] assms(1) [of 4]
      assms(1) [of 5] assms(1) [of 6] assms(1) [of 7] assms(1) [of 8] assms(1) [of 9]
    by (simp_all add: fe_weight_def fe_bits_def top)
  note inside = ds [THEN store_inside_digit]
  note straddle = store_straddle_digit [OF ds(1) ds(2)] store_straddle_digit [OF ds(2) ds(3)]
    store_straddle_digit [OF ds(3) ds(4)] store_straddle_digit [OF ds(4) ds(5)]
    store_straddle_digit [OF ds(6) ds(7)] store_straddle_digit [OF ds(7) ds(8)]
    store_straddle_digit [OF ds(8) ds(9)] store_straddle_digit [OF ds(9) ds(10)]
  have m: "map uint (fe_store s) = map (\<lambda>j. digit (8 * j) 8 v) [0..<32]"
    by (simp add: fe_store_def inside straddle upt_32 del: drop_bit_0 One_nat_def)
  have "uint (fe_store s ! j) = digit (8 * j) 8 v" if "j < 32" for j
    using arg_cong [OF m, of "\<lambda>l. l ! j"] that by (simp del: upt_Suc)
  then have "le_bytes (fe_store s) = v mod 256 ^ 32"
    using le_bytes_digits [of "fe_store s" v] by simp
  moreover have "v < 256 ^ 32" using assms(3) by simp
  ultimately show ?thesis using assms(2) by simp
qed

lemma fe_tobytes_ok:
  assumes "fe_loose h"
  shows "length (fe_tobytes h) = 32" and "le_bytes (fe_tobytes h) = fe_val h mod fe_prime"
proof -
  define q where "q = fe_val h div fe_prime"
  define r where "r = fe_val h mod fe_prime"
  have q: "fe_quot h 10 = q" "\<bar>q\<bar> \<le> 3" using fe_quot_correct [OF assms] by (simp_all add: q_def)
  have len: "length h = 10" using assms by (simp add: in_fe_ivls)
  have w: "i32 (19 * q) = 19 * q" "i32 (h ! 0 + 19 * q) = h ! 0 + 19 * q"
    using q(2) fe_loose_lim [OF assms, of 0] by (auto simp: fe_lim_def intro!: i32_id)
  define t where "t = h[0 := h ! 0 + 19 * q]"
  have wide: "fe_wide t"
    unfolding fe_wide_def t_def using len q(2) fe_loose_lim [OF assms] by (fastforce simp: nth_list_update)
  have val: "fe_val t = fe_val h + 19 * q" using len by (simp add: t_def limb_sum_update)
  have "fe_val h = (2 ^ 255 - 19) * q + r"
    by (simp only: q_def r_def fe_prime_def [symmetric] mult_div_mod_eq)
  then have r: "fe_val t - r = 2 ^ 255 * q" "0 \<le> r" "r < 2 ^ 255"
    using pos_mod_bound [of fe_prime "fe_val h"] by (simp_all add: val r_def fe_prime_def)
  have upt: "[0..<10] = [0, 1, 2, 3, 4, 5, 6, 7, 8, 9]" by (simp add: upt_rec)
  have tob: "fe_tobytes h = fe_store (run_ops fe_floor [0..<10] t)"
    by (simp only: fe_tobytes_def q(1) Let_def w t_def upt)
  show "length (fe_tobytes h) = 32" by (simp add: tob)
  have "digit (fe_weight i) (fe_bits i) (fe_val t) = digit (fe_weight i) (fe_bits i) r" if "i < 10" for i
  proof (rule digit_add_multiple [of _ _ 255])
    have "fe_weight 10 = 255" by (simp add: fe_weight_def)
    then show "fe_weight i + fe_bits i \<le> 255"
      using fe_weight_mono [of "Suc i" 10] that by (simp add: fe_weight_Suc)
  qed (simp add: r(1))
  then have "run_ops fe_floor [0..<10] t ! i = digit (fe_weight i) (fe_bits i) r" if "i < 10" for i
    using fe_floor_run [OF wide, of 10] that by simp
  then show "le_bytes (fe_tobytes h) = fe_val h mod fe_prime"
    unfolding tob r_def [symmetric] using r(2,3) by (intro fe_store_correct) auto
qed

section \<open>Tests\<close>

lemma fe_isnonzero_ok: "fe_loose f \<Longrightarrow> fe_isnonzero f = (if fe_val f mod fe_prime = 0 then 0 else 1)"
  using fe_tobytes_ok [of f] by (simp only: fe_isnonzero_def or_bytes_nonzero)

lemma fe_isnegative_ok: "fe_loose f \<Longrightarrow> fe_isnegative f = fe_val f mod fe_prime mod 2"
proof -
  assume *: "fe_loose f"
  obtain b bs where b: "fe_tobytes f = b # bs"
    using fe_tobytes_ok(1) [OF *] by (cases "fe_tobytes f") auto
  have "uint (b AND 1) = uint b mod 2"
    by (simp only: unsigned_and_eq) (simp add: and_one_eq)
  moreover have "le_bytes (fe_tobytes f) mod 2 = uint b mod 2"
    unfolding b le_bytes.simps by presburger
  ultimately show ?thesis using fe_tobytes_ok(2) [OF *] by (simp add: fe_isnegative_def b)
qed

section \<open>Loading\<close>

lemma sint_push:
  assumes "uint (x :: u64) = d" and "d < 2 ^ 32" and "k \<le> 8"
  shows "sint (push_bit k x) = d * 2 ^ k"
proof -
  have "d * 2 ^ k \<le> d * 2 ^ 8" using assms uint_ge_0 [of x] by (intro mult_left_mono power_increasing) auto
  then have lt: "d * 2 ^ k < 2 ^ 40" using assms(2) by simp
  have "0 \<le> d * 2 ^ k" using assms(1) uint_ge_0 [of x] by simp
  with lt have "take_bit 64 (push_bit k d) = d * 2 ^ k"
    by (simp add: push_bit_eq_mult take_bit_int_eq_self)
  then have "uint (push_bit k x) = d * 2 ^ k"
    by (simp only: unsigned_push_bit_eq assms(1)) simp
  with lt show ?thesis by (simp add: sint_small)
qed

definition fe_load_weight :: "nat \<Rightarrow> nat" where
  "fe_load_weight i = [0, 32, 56, 80, 104, 128, 160, 184, 208, 232, 255] ! i"

definition fe_load_shift :: "nat \<Rightarrow> nat" where
  "fe_load_shift i = [0, 6, 5, 3, 2, 0, 7, 5, 4, 2] ! i"

lemma fe_load_digits:
  assumes "length s = 32"
  shows "fe_load s = map (\<lambda>i. digit (fe_load_weight i) (fe_load_weight (Suc i) - fe_load_weight i) (le_bytes s)
    * 2 ^ fe_load_shift i) [0..<10]"
proof -
  have l3: "sint (push_bit k (load_3 (drop j s))) = digit (8 * j) 24 (le_bytes s) * 2 ^ k" if "j \<le> 29" "k \<le> 8" for j k
    using that assms load_digits(1) [of j s] digit_bounds(2) [of "8 * j" 24 "le_bytes s"]
    by (intro sint_push) auto
  have l4: "sint (load_4 (drop j s)) = digit (8 * j) 32 (le_bytes s)" if "j \<le> 28" for j
    using that assms sint_push [of "load_4 (drop j s)" "digit (8 * j) 32 (le_bytes s)" 0] load_digits(2) [of j s]
      digit_bounds(2) [of "8 * j" 32 "le_bytes s"] by simp
  have m: "(8388607 :: u64) = mask 23" by (simp add: mask_eq_exp_minus_1)
  have "uint (load_3 (drop 29 s) AND 8388607) = take_bit 23 (digit 232 24 (le_bytes s))"
    using load_digits(1) [of 29 s] assms unfolding m
    by (simp only: take_bit_eq_mask [symmetric] unsigned_take_bit_eq) simp
  also have "\<dots> = digit 232 23 (le_bytes s)"
    using digit_digit [of 0 23 24 232 "le_bytes s"] by (simp add: digit_def take_bit_eq_mod)
  finally have l9: "sint (push_bit 2 (load_3 (drop 29 s) AND 8388607)) = digit 232 23 (le_bytes s) * 2 ^ 2"
    using digit_bounds(2) [of 232 23 "le_bytes s"] by (intro sint_push) auto
  show ?thesis
    using l4 [of 0] l3 [of 4 6] l3 [of 7 5] l3 [of 10 3] l3 [of 13 2] l4 [of 16] l3 [of 20 7] l3 [of 23 5]
      l3 [of 26 4] l9
    by (simp add: fe_load_def upt_10 fe_load_weight_def fe_load_shift_def)
qed

lemma fe_load_val:
  assumes "length s = 32"
  shows "fe_val (fe_load s) = le_bytes s mod 2 ^ 255"
proof -
  define d where "d = map (\<lambda>i. digit (fe_load_weight i) (fe_load_weight (Suc i) - fe_load_weight i) (le_bytes s)) [0..<10]"
  have "limb_sum fe_load_weight 10 d = le_bytes s mod 2 ^ fe_load_weight 10"
  proof (rule limb_sum_digits)
    show "fe_load_weight i \<le> fe_load_weight (Suc i)" if "i < 10" for i
      using that by (auto simp: fe_load_weight_def less_Suc_eq eval_nat_numeral)
  qed (simp_all add: d_def fe_load_weight_def)
  then have "limb_sum fe_load_weight 10 d = le_bytes s mod 2 ^ 255" by (simp add: fe_load_weight_def)
  moreover have "fe_val (fe_load s) = limb_sum fe_load_weight 10 d"
    unfolding fe_load_digits [OF assms] d_def
    by (simp add: limb_sum_list upt_10 fe_weight_def fe_load_weight_def fe_load_shift_def)
  ultimately show ?thesis by simp
qed

definition fe_load_ivls :: "ivl list" where
  "fe_load_ivls = map (\<lambda>i. (0, (2 ^ (fe_load_weight (Suc i) - fe_load_weight i) - 1) * 2 ^ fe_load_shift i)) [0..<10]"

lemma fe_load_in: "length s = 32 \<Longrightarrow> in_ivls (fe_load s) fe_load_ivls"
proof -
  assume *: "length s = 32"
  have "in_ivl (digit p w v * 2 ^ k) (0, (2 ^ w - 1) * 2 ^ k)" for p w v k
    using digit_bounds [of p w v] by (auto simp: in_ivl_def intro!: mult_right_mono)
  then show ?thesis by (simp add: fe_load_digits [OF *] fe_load_ivls_def list_all2_conv_all_nth)
qed

lemma fe_load_carries: "fe_carries_end [9, 1, 3, 5, 7, 0, 2, 4, 6, 8] fe_load_ivls"
  by code_simp

lemma fe_load_overflow_iff:
  assumes "length s = 32"
  shows "fe_load_overflow (fe_load s) \<longleftrightarrow> fe_prime \<le> le_bytes s mod 2 ^ 255"
proof -
  define d where "d i = digit (fe_load_weight i) (fe_load_weight (Suc i) - fe_load_weight i) (le_bytes s)" for i
  have b: "0 \<le> d i" "d i \<le> 2 ^ (fe_load_weight (Suc i) - fe_load_weight i) - 1" for i
    using digit_bounds [of "fe_load_weight i" "fe_load_weight (Suc i) - fe_load_weight i" "le_bytes s"]
    by (simp_all add: d_def)
  note bs = b [of 0] b [of 1] b [of 2] b [of 3] b [of 4] b [of 5] b [of 6] b [of 7] b [of 8] b [of 9]
  have h: "fe_load s = [d 0, d 1 * 64, d 2 * 32, d 3 * 8, d 4 * 4, d 5, d 6 * 128, d 7 * 32, d 8 * 16, d 9 * 4]"
    unfolding fe_load_digits [OF assms] d_def by (simp add: upt_10 fe_load_shift_def)
  have "le_bytes s mod 2 ^ 255 = d 0 + d 1 * 2 ^ 32 + d 2 * 2 ^ 56 + d 3 * 2 ^ 80 + d 4 * 2 ^ 104
      + d 5 * 2 ^ 128 + d 6 * 2 ^ 160 + d 7 * 2 ^ 184 + d 8 * 2 ^ 208 + d 9 * 2 ^ 232"
    unfolding fe_load_val [OF assms, symmetric] h fe_val_list by simp
  then show ?thesis
    using bs unfolding h fe_load_overflow_def fe_prime_def
    by (simp add: fe_load_weight_def) (rule iffI, elim conjE, linarith, intro conjI; linarith)
qed

lemma fe_frombytes_ok:
  assumes "length s = 32"
  shows "fe_frombytes s = None \<longleftrightarrow> fe_prime \<le> le_bytes s mod 2 ^ 255"
    and "fe_frombytes s = Some f \<Longrightarrow> fe_tight f"
    and "fe_frombytes s = Some f \<Longrightarrow> fe_val f mod fe_prime = le_bytes s mod 2 ^ 255"
proof -
  show "fe_frombytes s = None \<longleftrightarrow> fe_prime \<le> le_bytes s mod 2 ^ 255"
    using fe_load_overflow_iff [OF assms] by (simp add: fe_frombytes_def Let_def)
  note run = fe_carries_run [OF fe_load_carries fe_load_in [OF assms]]
  assume "fe_frombytes s = Some f"
  then have f: "f = map i32 (run_ops fe_carry [9, 1, 3, 5, 7, 0, 2, 4, 6, 8] (fe_load s))"
    and "\<not> fe_prime \<le> le_bytes s mod 2 ^ 255"
    using fe_load_overflow_iff [OF assms] by (auto simp: fe_frombytes_def Let_def split: if_splits)
  then show "fe_tight f" and "fe_val f mod fe_prime = le_bytes s mod 2 ^ 255"
    using run fe_load_val [OF assms] by simp_all
qed

section \<open>The functions\<close>

text \<open>C17. For operands within \<open>1.65 * 2 ^ 26\<close> and \<open>1.65 * 2 ^ 25\<close>, \<open>fe_mul\<close>
  returns the product modulo \<open>2 ^ 255 - 19\<close> with limbs within \<open>1.01 * 2 ^ 25\<close> and
  \<open>1.01 * 2 ^ 24\<close>, as its comment says.\<close>

theorem fe_mul_correct:
  assumes "fe_loose f" and "fe_loose g"
  shows "fe_tight (fe_mul f g) \<and> fe_val (fe_mul f g) mod fe_prime = fe_val f * fe_val g mod fe_prime"
  using fe_mul_ok [OF assms] by simp

text \<open>C33. \<open>fe_sq\<close> returns the square and \<open>fe_sq2\<close> twice the square modulo
  \<open>2 ^ 255 - 19\<close>, within the documented bounds.\<close>

theorem fe_sq_correct:
  assumes "fe_loose f"
  shows "fe_tight (fe_sq f) \<and> fe_val (fe_sq f) mod fe_prime = fe_val f ^ 2 mod fe_prime
    \<and> fe_tight (fe_sq2 f) \<and> fe_val (fe_sq2 f) mod fe_prime = 2 * fe_val f ^ 2 mod fe_prime"
  using fe_sq_ok [OF assms] fe_sq2_ok [OF assms] by (simp add: power2_eq_square)

text \<open>C35. Sums, differences and negations of reduced elements are exact, do not overflow, and are
  valid operands of the products.\<close>

theorem fe_sums_correct:
  assumes "fe_tight f" and "fe_tight g"
  shows "fe_loose (fe_add f g) \<and> fe_val (fe_add f g) = fe_val f + fe_val g
    \<and> fe_loose (fe_sub f g) \<and> fe_val (fe_sub f g) = fe_val f - fe_val g
    \<and> fe_tight (fe_neg f) \<and> fe_val (fe_neg f) = - fe_val f"
proof -
  note s = fe_add_ok [OF assms]
  have "fe_loose (fe_add f g)" "fe_loose (fe_sub f g)"
    by (rule in_fe_ivls_mono [OF s(1)], simp_all) (rule in_fe_ivls_mono [OF s(3)], simp_all)
  with s(2,4) fe_neg_ok [OF assms(1)] show ?thesis by simp
qed

text \<open>C20. \<open>fe_invert\<close> raises its argument to the power \<open>p - 2\<close> modulo the prime
  \<open>p\<close>, the inverse by Fermat's theorem.\<close>

theorem fe_invert_correct:
  assumes "fe_loose z"
  shows "fe_tight (fe_invert z) \<and> fe_val (fe_invert z) mod fe_prime = fe_val z ^ nat (fe_prime - 2) mod fe_prime"
proof -
  have "nat (fe_prime - 2) = 2 ^ 255 - 21" by (simp add: fe_prime_def)
  then show ?thesis
    using fe_powers_tight(1) [OF assms] fe_invert_power [OF assms] by (simp add: power_of_def)
qed

text \<open>C21. \<open>fe_divpowm1\<close> computes \<open>u v\<^sup>3 (u v\<^sup>7) ^ ((p - 5) / 8)\<close> modulo
  \<open>p\<close>, the candidate for a square root of \<open>u / v\<close>.\<close>

theorem fe_divpowm1_correct:
  assumes "fe_loose u" and "fe_loose v"
  shows "fe_tight (fe_divpowm1 u v) \<and> fe_val (fe_divpowm1 u v) mod fe_prime
    = fe_val u * fe_val v ^ 3 * (fe_val u * fe_val v ^ 7) ^ nat ((fe_prime - 5) div 8) mod fe_prime"
proof -
  define e :: nat where "e = 2 ^ 252 - 3"
  have e: "nat ((fe_prime - 5) div 8) = e" "2 ^ 252 - 2 = e + 1" "7 * (2 ^ 252 - 3) + 3 = 7 * e + 3"
    by (simp_all add: fe_prime_def e_def)
  have "fe_val (fe_divpowm1 u v) mod fe_prime = fe_val u ^ (e + 1) * fe_val v ^ (7 * e + 3) mod fe_prime"
    using fe_divpowm1_power [OF assms] unfolding power_of_def e(2,3) by simp
  then show ?thesis
    using fe_powers_tight(2) [OF assms]
    by (simp only: e(1) power_mult_distrib power_add power_mult [symmetric] power_one_right ac_simps simp_thms)
qed

text \<open>C18. \<open>fe_tobytes\<close> returns the 32 canonical bytes of the value modulo the prime, for limbs
  up to \<open>1.65 * 2 ^ 26\<close> and \<open>1.65 * 2 ^ 25\<close>, more than its comment asks for.\<close>

theorem fe_tobytes_correct:
  assumes "fe_loose h"
  shows "length (fe_tobytes h) = 32 \<and> le_bytes (fe_tobytes h) = fe_val h mod fe_prime"
  using fe_tobytes_ok [OF assms] by simp

text \<open>C19. The conversion from bytes refuses exactly the encodings that are not below the prime (bit
  255 is the sign of a point and ignored), and an accepted encoding is what \<open>fe_tobytes\<close>
  returns for the result.\<close>

theorem fe_frombytes_correct:
  assumes "length s = 32"
  shows "case fe_frombytes s of None \<Rightarrow> fe_prime \<le> le_bytes s mod 2 ^ 255
    | Some f \<Rightarrow> fe_tight f \<and> le_bytes (fe_tobytes f) = le_bytes s mod 2 ^ 255
        \<and> le_bytes s mod 2 ^ 255 < fe_prime"
proof (cases "fe_frombytes s")
  case (Some f)
  note ok = fe_frombytes_ok(2,3) [OF assms Some]
  have "\<not> fe_prime \<le> le_bytes s mod 2 ^ 255" using fe_frombytes_ok(1) [OF assms] Some by simp
  then show ?thesis using Some ok fe_tobytes_ok [of f] by simp
qed (use fe_frombytes_ok(1) [OF assms] in simp)

text \<open>C34. \<open>fe_isnegative\<close> returns the parity of the canonical representative and
  \<open>fe_isnonzero\<close> whether the element is nonzero in the field, whatever its limbs.\<close>

theorem fe_tests_correct:
  assumes "fe_loose f"
  shows "fe_isnegative f = fe_val f mod fe_prime mod 2
    \<and> fe_isnonzero f = (if fe_prime dvd fe_val f then 0 else 1)"
  by (simp only: fe_isnegative_ok [OF assms] fe_isnonzero_ok [OF assms] dvd_eq_mod_eq_0 simp_thms)

section \<open>The functions at concrete elements\<close>

text \<open>The largest operand, and its value.\<close>

definition fe_top :: fe where
  "fe_top = [110729625, 55364812, 110729625, 55364812, 110729625, 55364812, 110729625, 55364812, 110729625, 55364812]"

definition fe_two :: fe where
  "fe_two = [2, 0, 0, 0, 0, 0, 0, 0, 0, 0]"

lemma fe_top_loose: "fe_loose fe_top"
  by code_simp

lemma fe_two_tight: "fe_tight fe_two"
  by code_simp

lemma fe_top_val: "fe_val fe_top = 95528475087406986914000662323706630701451569704240203118667161653804273342873"
  by (simp add: fe_top_def fe_val_list)

lemma fe_two_val: "fe_val fe_two = 2"
  by (simp add: fe_two_def fe_val_list)

theorem fe_mul_witness:
  "fe_val (fe_mul fe_top fe_two) mod fe_prime
    = 17368816318839680692644847134381399622998162410019560178147947295738852225899"
  using conjunct2 [OF fe_mul_correct [OF fe_top_loose fe_tight_loose [OF fe_two_tight]]]
  by (simp add: fe_top_val fe_two_val fe_prime_def)

theorem fe_sq_witness: "fe_val (fe_sq fe_two) mod fe_prime = 4 \<and> fe_val (fe_sq2 fe_two) mod fe_prime = 8"
  using fe_sq_correct [OF fe_tight_loose [OF fe_two_tight]] by (simp add: fe_two_val fe_prime_def)

theorem fe_sums_witness: "fe_val (fe_sub fe_two (fe_neg fe_two)) = 4"
  using fe_sums_correct [OF fe_two_tight fe_two_tight]
    fe_sums_correct [OF fe_two_tight, of "fe_neg fe_two"] by (simp add: fe_two_val)

theorem fe_invert_witness: "fe_val (fe_invert fe_1) mod fe_prime = 1"
proof -
  have "fe_loose fe_1" by code_simp
  moreover have "fe_val fe_1 = 1" by (simp add: fe_1_def fe_val_list)
  ultimately show ?thesis using fe_invert_correct [of fe_1] by (simp add: fe_prime_def)
qed

theorem fe_divpowm1_witness: "fe_val (fe_divpowm1 fe_1 fe_1) mod fe_prime = 1"
proof -
  have "fe_loose fe_1" by code_simp
  moreover have "fe_val fe_1 = 1" by (simp add: fe_1_def fe_val_list)
  ultimately show ?thesis using fe_divpowm1_correct [of fe_1 fe_1] by (simp add: fe_prime_def)
qed

theorem fe_tobytes_witness: "le_bytes (fe_tobytes fe_top) = 37632430468748889202215169819362676774816577371419921098938369649847708522924"
  using fe_tobytes_correct [OF fe_top_loose] by (simp add: fe_top_val fe_prime_def)

theorem fe_frombytes_witness:
  "fe_frombytes (replicate 32 255) = None \<and> fe_frombytes (2 # replicate 31 0) \<noteq> None"
proof -
  have "le_bytes (replicate 32 255) = 2 ^ 256 - 1" "le_bytes (2 # replicate 31 0) = 2" by code_simp+
  then show ?thesis
    using fe_frombytes_correct [of "replicate 32 255"] fe_frombytes_correct [of "2 # replicate 31 0"]
    by (auto simp: fe_prime_def split: option.splits)
qed

theorem fe_tests_witness: "fe_isnegative fe_two = 0 \<and> fe_isnonzero fe_two = 1"
  using fe_tests_correct [OF fe_tight_loose [OF fe_two_tight]] by (simp add: fe_two_val fe_prime_def)

end
