(* ===== verification/Algorithm.thy ===== *)
theory Algorithm
  imports Prelude
begin

text \<open>
  Algorithm identifiers, from \<^verbatim>\<open>src/src/base/crypto/Algorithm.h\<close> and
  \<^verbatim>\<open>Algorithm.cpp\<close>, for the default build on x86-64 Linux and Windows, where every
  \<open>WITH_\<close> option of the algorithms is on. An identifier is a 32 bit code whose bytes are the
  family, the binary logarithm of the scratchpad size, the base variant or the logarithm of the L2
  size, and the coin. \<open>parse\<close> finds a name in the table of aliases, ignoring case, as the
  \<^verbatim>\<open>std::map\<close> with \<^verbatim>\<open>strcasecmp\<close> does; a name listed twice keeps its first entry.
\<close>

type_synonym algo_id = u32

definition INVALID :: algo_id where
  "INVALID = 0"

definition CN_0 :: algo_id where
  "CN_0 = 0x63150000"

definition CN_1 :: algo_id where
  "CN_1 = 0x63150100"

definition CN_2 :: algo_id where
  "CN_2 = 0x63150200"

definition CN_R :: algo_id where
  "CN_R = 0x63150272"

definition CN_FAST :: algo_id where
  "CN_FAST = 0x63150166"

definition CN_HALF :: algo_id where
  "CN_HALF = 0x63150268"

definition CN_XAO :: algo_id where
  "CN_XAO = 0x63150078"

definition CN_RTO :: algo_id where
  "CN_RTO = 0x63150172"

definition CN_RWZ :: algo_id where
  "CN_RWZ = 0x63150277"

definition CN_ZLS :: algo_id where
  "CN_ZLS = 0x6315027a"

definition CN_DOUBLE :: algo_id where
  "CN_DOUBLE = 0x63150264"

definition CN_CCX :: algo_id where
  "CN_CCX = 0x63150063"

definition CN_LITE_0 :: algo_id where
  "CN_LITE_0 = 0x63140000"

definition CN_LITE_1 :: algo_id where
  "CN_LITE_1 = 0x63140100"

definition CN_HEAVY_0 :: algo_id where
  "CN_HEAVY_0 = 0x63160000"

definition CN_HEAVY_TUBE :: algo_id where
  "CN_HEAVY_TUBE = 0x63160172"

definition CN_HEAVY_XHV :: algo_id where
  "CN_HEAVY_XHV = 0x63160068"

definition CN_PICO_0 :: algo_id where
  "CN_PICO_0 = 0x63120200"

definition CN_PICO_TLO :: algo_id where
  "CN_PICO_TLO = 0x63120274"

definition CN_UPX2 :: algo_id where
  "CN_UPX2 = 0x63110200"

definition CN_GR_0 :: algo_id where
  "CN_GR_0 = 0x63130100"

definition CN_GR_1 :: algo_id where
  "CN_GR_1 = 0x63130101"

definition CN_GR_2 :: algo_id where
  "CN_GR_2 = 0x63150102"

definition CN_GR_3 :: algo_id where
  "CN_GR_3 = 0x63140103"

definition CN_GR_4 :: algo_id where
  "CN_GR_4 = 0x63120104"

definition CN_GR_5 :: algo_id where
  "CN_GR_5 = 0x63120105"

definition GHOSTRIDER_RTM :: algo_id where
  "GHOSTRIDER_RTM = 0x6c150000"

definition YESPOWER_R16 :: algo_id where
  "YESPOWER_R16 = 0x79170000"

definition YESPOWER_TIDE :: algo_id where
  "YESPOWER_TIDE = 0x79150000"

definition YESCRYPT_R8 :: algo_id where
  "YESCRYPT_R8 = 0x7a150000"

definition YESCRYPT_R16 :: algo_id where
  "YESCRYPT_R16 = 0x7a170000"

definition YESCRYPT_R32 :: algo_id where
  "YESCRYPT_R32 = 0x7a180000"

definition FLEX_KCN :: algo_id where
  "FLEX_KCN = 0x66150000"

definition FLEX_LCN :: algo_id where
  "FLEX_LCN = 0x66150001"

definition X16RS_HAC :: algo_id where
  "X16RS_HAC = 0x78010000"

definition RX_0 :: algo_id where
  "RX_0 = 0x72151200"

definition RX_V2 :: algo_id where
  "RX_V2 = 0x72151202"

definition RX_WOW :: algo_id where
  "RX_WOW = 0x72141177"

definition RX_ARQ :: algo_id where
  "RX_ARQ = 0x72121061"

definition RX_GRAFT :: algo_id where
  "RX_GRAFT = 0x72151267"

definition RX_SFX :: algo_id where
  "RX_SFX = 0x72151273"

definition RX_YADA :: algo_id where
  "RX_YADA = 0x72151279"

definition RX_EPIC :: algo_id where
  "RX_EPIC = 0x72151257"

definition RX_C64 :: algo_id where
  "RX_C64 = 0x72151264"

definition RX_XLA :: algo_id where
  "RX_XLA = 0x72151254"

definition RX_SCASH :: algo_id where
  "RX_SCASH = 0x72151253"

definition RX_PP :: algo_id where
  "RX_PP = 0x72151270"

definition RX_KEVA :: algo_id where
  "RX_KEVA = 0x7215126b"

definition RX_VEIL :: algo_id where
  "RX_VEIL = 0x72151201"

definition AR2_CHUKWA :: algo_id where
  "AR2_CHUKWA = 0x61130000"

definition AR2_CHUKWA_V2 :: algo_id where
  "AR2_CHUKWA_V2 = 0x61140000"

definition AR2_WRKZ :: algo_id where
  "AR2_WRKZ = 0x61120000"

definition KAWPOW_RVN :: algo_id where
  "KAWPOW_RVN = 0x6b0f0000"

definition VERUSHASH :: algo_id where
  "VERUSHASH = 0x760e0000"

definition RX_XCB :: algo_id where
  "RX_XCB = 0x43120001"

definition CN_GPU :: algo_id where
  "CN_GPU = 0x67150001"

definition KRYPTOKRONA_V2 :: algo_id where
  "KRYPTOKRONA_V2 = 0x4b120000"

text \<open>The families.\<close>

definition FAM_UNKNOWN :: u32 where
  "FAM_UNKNOWN = 0"

definition FAM_CN_ANY :: u32 where
  "FAM_CN_ANY = 0x63000000"

definition FAM_CN :: u32 where
  "FAM_CN = 0x63150000"

definition FAM_CN_LITE :: u32 where
  "FAM_CN_LITE = 0x63140000"

definition FAM_CN_HEAVY :: u32 where
  "FAM_CN_HEAVY = 0x63160000"

definition FAM_CN_PICO :: u32 where
  "FAM_CN_PICO = 0x63120000"

definition FAM_CN_FEMTO :: u32 where
  "FAM_CN_FEMTO = 0x63110000"

definition FAM_RANDOM_X :: u32 where
  "FAM_RANDOM_X = 0x72000000"

definition FAM_ARGON2 :: u32 where
  "FAM_ARGON2 = 0x61000000"

definition FAM_KAWPOW :: u32 where
  "FAM_KAWPOW = 0x6b000000"

definition FAM_GHOSTRIDER :: u32 where
  "FAM_GHOSTRIDER = 0x6c000000"

definition FAM_YESPOWER :: u32 where
  "FAM_YESPOWER = 0x79000000"

definition FAM_YESCRYPT :: u32 where
  "FAM_YESCRYPT = 0x7a000000"

definition FAM_FLEX :: u32 where
  "FAM_FLEX = 0x66000000"

definition FAM_X16RS :: u32 where
  "FAM_X16RS = 0x78000000"

definition FAM_VERUS :: u32 where
  "FAM_VERUS = 0x76000000"

definition FAM_RANDOMY :: u32 where
  "FAM_RANDOMY = 0x43000000"

definition FAM_KRYPTOKRONA :: u32 where
  "FAM_KRYPTOKRONA = 0x4b000000"

definition FAM_CN_GPU_FAM :: u32 where
  "FAM_CN_GPU_FAM = 0x67000000"

lemmas algo_id_defs =
  INVALID_def CN_0_def CN_1_def CN_2_def CN_R_def CN_FAST_def CN_HALF_def CN_XAO_def
  CN_RTO_def CN_RWZ_def CN_ZLS_def CN_DOUBLE_def CN_CCX_def CN_LITE_0_def CN_LITE_1_def
  CN_HEAVY_0_def CN_HEAVY_TUBE_def CN_HEAVY_XHV_def CN_PICO_0_def CN_PICO_TLO_def
  CN_UPX2_def CN_GR_0_def CN_GR_1_def CN_GR_2_def CN_GR_3_def CN_GR_4_def CN_GR_5_def
  GHOSTRIDER_RTM_def YESPOWER_R16_def YESPOWER_TIDE_def YESCRYPT_R8_def YESCRYPT_R16_def
  YESCRYPT_R32_def FLEX_KCN_def FLEX_LCN_def X16RS_HAC_def RX_0_def RX_V2_def RX_WOW_def
  RX_ARQ_def RX_GRAFT_def RX_SFX_def RX_YADA_def RX_EPIC_def RX_C64_def RX_XLA_def
  RX_SCASH_def RX_PP_def RX_KEVA_def RX_VEIL_def AR2_CHUKWA_def AR2_CHUKWA_V2_def
  AR2_WRKZ_def KAWPOW_RVN_def VERUSHASH_def RX_XCB_def CN_GPU_def KRYPTOKRONA_V2_def

lemmas family_defs =
  FAM_UNKNOWN_def FAM_CN_ANY_def FAM_CN_def FAM_CN_LITE_def FAM_CN_HEAVY_def FAM_CN_PICO_def
  FAM_CN_FEMTO_def FAM_RANDOM_X_def FAM_ARGON2_def FAM_KAWPOW_def FAM_GHOSTRIDER_def
  FAM_YESPOWER_def FAM_YESCRYPT_def FAM_FLEX_def FAM_X16RS_def FAM_VERUS_def FAM_RANDOMY_def
  FAM_KRYPTOKRONA_def FAM_CN_GPU_FAM_def

definition kAlgorithmNames :: "(algo_id \<times> string) list" where
  "kAlgorithmNames = [
    (CN_0, ''cn/0''), (CN_1, ''cn/1''), (CN_2, ''cn/2''), (CN_R, ''cn/r''), (CN_FAST, ''cn/fast''),
    (CN_HALF, ''cn/half''), (CN_XAO, ''cn/xao''), (CN_RTO, ''cn/rto''), (CN_RWZ, ''cn/rwz''),
    (CN_ZLS, ''cn/zls''), (CN_DOUBLE, ''cn/double''), (CN_CCX, ''cn/ccx''),
    (CN_LITE_0, ''cn-lite/0''), (CN_LITE_1, ''cn-lite/1''), (CN_HEAVY_0, ''cn-heavy/0''),
    (CN_HEAVY_TUBE, ''cn-heavy/tube''), (CN_HEAVY_XHV, ''cn-heavy/xhv''), (CN_PICO_0, ''cn-pico''),
    (CN_PICO_TLO, ''cn-pico/tlo''), (CN_UPX2, ''cn/upx2''), (RX_0, ''rx/0''), (RX_V2, ''rx/2''),
    (RX_WOW, ''rx/wow''), (RX_ARQ, ''rx/arq''), (RX_GRAFT, ''rx/graft''), (RX_SFX, ''rx/sfx''),
    (RX_EPIC, ''rx/epic''), (RX_VEIL, ''rx/veil''), (RX_SCASH, ''rx/scash''), (RX_PP, ''rx/pp''),
    (RX_XLA, ''rx/xla''), (RX_C64, ''rx/c64''), (RX_KEVA, ''rx/keva''), (RX_YADA, ''rx/yada''),
    (AR2_CHUKWA, ''argon2/chukwa''), (AR2_CHUKWA_V2, ''argon2/chukwav2''),
    (AR2_WRKZ, ''argon2/ninja''), (KAWPOW_RVN, ''kawpow''), (GHOSTRIDER_RTM, ''ghostrider''),
    (YESPOWER_R16, ''yespower-r16''), (YESPOWER_TIDE, ''yespowertide''),
    (YESCRYPT_R8, ''yescryptr8''), (YESCRYPT_R16, ''yescryptr16''), (YESCRYPT_R32, ''yescryptr32''),
    (FLEX_KCN, ''flex''), (FLEX_LCN, ''flex-lcn''), (X16RS_HAC, ''x16rs''),
    (VERUSHASH, ''verushash''), (RX_XCB, ''rx/xcb''), (KRYPTOKRONA_V2, ''kryptokrona''),
    (CN_GPU, ''cn/gpu'')]"

definition kAlgorithmAliases :: "(string \<times> algo_id) list" where
  "kAlgorithmAliases = [
    (''cn/0'', CN_0), (''cryptonight/0'', CN_0), (''cryptonight'', CN_0), (''cn'', CN_0),
    (''cn/1'', CN_1), (''cryptonight/1'', CN_1), (''cryptonight-monerov7'', CN_1),
    (''cryptonight_v7'', CN_1), (''cn/2'', CN_2), (''cryptonight/2'', CN_2),
    (''cryptonight-monerov8'', CN_2), (''cryptonight_v8'', CN_2), (''cn/fast'', CN_FAST),
    (''cryptonight/fast'', CN_FAST), (''cryptonight/msr'', CN_FAST), (''cn/msr'', CN_FAST),
    (''cn/r'', CN_R), (''cryptonight/r'', CN_R), (''cryptonight_r'', CN_R), (''cn/xao'', CN_XAO),
    (''cryptonight/xao'', CN_XAO), (''cryptonight_alloy'', CN_XAO), (''cn/half'', CN_HALF),
    (''cryptonight/half'', CN_HALF), (''cn/rto'', CN_RTO), (''cryptonight/rto'', CN_RTO),
    (''cn/rwz'', CN_RWZ), (''cryptonight/rwz'', CN_RWZ), (''cn/zls'', CN_ZLS),
    (''cryptonight/zls'', CN_ZLS), (''cn/double'', CN_DOUBLE), (''cryptonight/double'', CN_DOUBLE),
    (''cn/ccx'', CN_CCX), (''cryptonight/ccx'', CN_CCX), (''cryptonight/conceal'', CN_CCX),
    (''cn/conceal'', CN_CCX), (''cn-lite/0'', CN_LITE_0), (''cryptonight-lite/0'', CN_LITE_0),
    (''cryptonight-lite'', CN_LITE_0), (''cryptonight-light'', CN_LITE_0), (''cn-lite'', CN_LITE_0),
    (''cn-light'', CN_LITE_0), (''cryptonight_lite'', CN_LITE_0), (''cn-lite/1'', CN_LITE_1),
    (''cryptonight-lite/1'', CN_LITE_1), (''cryptonight-aeonv7'', CN_LITE_1),
    (''cryptonight_lite_v7'', CN_LITE_1), (''cn-heavy/0'', CN_HEAVY_0),
    (''cryptonight-heavy/0'', CN_HEAVY_0), (''cryptonight-heavy'', CN_HEAVY_0),
    (''cn-heavy'', CN_HEAVY_0), (''cryptonight_heavy'', CN_HEAVY_0),
    (''cn-heavy/xhv'', CN_HEAVY_XHV), (''cryptonight-heavy/xhv'', CN_HEAVY_XHV),
    (''cryptonight_haven'', CN_HEAVY_XHV), (''cn-heavy/tube'', CN_HEAVY_TUBE),
    (''cryptonight-heavy/tube'', CN_HEAVY_TUBE), (''cryptonight-bittube2'', CN_HEAVY_TUBE),
    (''cn-pico'', CN_PICO_0), (''cryptonight-pico'', CN_PICO_0), (''cn-pico/0'', CN_PICO_0),
    (''cryptonight-pico/trtl'', CN_PICO_0), (''cn-pico/trtl'', CN_PICO_0),
    (''cryptonight-turtle'', CN_PICO_0), (''cn-trtl'', CN_PICO_0),
    (''cryptonight-ultralite'', CN_PICO_0), (''cn-ultralite'', CN_PICO_0),
    (''cryptonight_turtle'', CN_PICO_0), (''cn_turtle'', CN_PICO_0), (''cn-pico/tlo'', CN_PICO_TLO),
    (''cryptonight-pico/tlo'', CN_PICO_TLO), (''cryptonight/ultra'', CN_PICO_TLO),
    (''cn/ultra'', CN_PICO_TLO), (''cryptonight-talleo'', CN_PICO_TLO),
    (''cn-talleo'', CN_PICO_TLO), (''cryptonight_talleo'', CN_PICO_TLO),
    (''cn_talleo'', CN_PICO_TLO), (''cn/upx2'', CN_UPX2), (''cryptonight/upx2'', CN_UPX2),
    (''cn-extremelite/upx2'', CN_UPX2), (''cryptonight-upx/2'', CN_UPX2), (''rx/0'', RX_0),
    (''randomx/0'', RX_0), (''randomx/test'', RX_0), (''rx/test'', RX_0), (''randomx'', RX_0),
    (''rx'', RX_0), (''rx/2'', RX_V2), (''randomx/v2'', RX_V2), (''rx/v2'', RX_V2),
    (''rx/wow'', RX_WOW), (''randomx/wow'', RX_WOW), (''randomwow'', RX_WOW), (''rx/arq'', RX_ARQ),
    (''randomx/arq'', RX_ARQ), (''randomarq'', RX_ARQ), (''rx/graft'', RX_GRAFT),
    (''randomx/graft'', RX_GRAFT), (''randomgraft'', RX_GRAFT), (''rx/sfx'', RX_SFX),
    (''randomx/sfx'', RX_SFX), (''randomsfx'', RX_SFX), (''rx/epic'', RX_EPIC),
    (''randomx/epic'', RX_EPIC), (''rx/veil'', RX_VEIL), (''randomx/veil'', RX_VEIL),
    (''rx/scash'', RX_SCASH), (''randomx/scash'', RX_SCASH), (''randomscash'', RX_SCASH),
    (''rx/pp'', RX_PP), (''randomx/pp'', RX_PP), (''randompp'', RX_PP), (''rx/xla'', RX_XLA),
    (''randomx/xla'', RX_XLA), (''panthera'', RX_XLA), (''rx/c64'', RX_C64),
    (''randomx/c64'', RX_C64), (''randomc64'', RX_C64), (''rx/keva'', RX_KEVA),
    (''randomx/keva'', RX_KEVA), (''randomkeva'', RX_KEVA), (''rx/yada'', RX_YADA),
    (''randomx/yada'', RX_YADA), (''randomyada'', RX_YADA), (''argon2/chukwa'', AR2_CHUKWA),
    (''chukwa'', AR2_CHUKWA), (''argon2/chukwav2'', AR2_CHUKWA_V2), (''chukwav2'', AR2_CHUKWA),
    (''argon2/ninja'', AR2_WRKZ), (''argon2/wrkz'', AR2_WRKZ), (''kawpow'', KAWPOW_RVN),
    (''kawpow/rvn'', KAWPOW_RVN), (''ghostrider'', GHOSTRIDER_RTM),
    (''ghostrider/rtm'', GHOSTRIDER_RTM), (''gr'', GHOSTRIDER_RTM),
    (''yespower-r16'', YESPOWER_R16), (''yespowerr16'', YESPOWER_R16), (''ytn'', YESPOWER_R16),
    (''yenten'', YESPOWER_R16), (''yespowertide'', YESPOWER_TIDE), (''tdc'', YESPOWER_TIDE),
    (''tidecoin'', YESPOWER_TIDE), (''yescryptr8'', YESCRYPT_R8), (''mtbc'', YESCRYPT_R8),
    (''yescryptr16'', YESCRYPT_R16), (''fnnc'', YESCRYPT_R16), (''fennec'', YESCRYPT_R16),
    (''gold'', YESCRYPT_R16), (''goldcash'', YESCRYPT_R16), (''yescryptr32'', YESCRYPT_R32),
    (''lpepe'', YESCRYPT_R32), (''luckypepe'', YESCRYPT_R32), (''flex'', FLEX_KCN),
    (''kcn'', FLEX_KCN), (''kylacoin'', FLEX_KCN), (''flex-lcn'', FLEX_LCN), (''lcn'', FLEX_LCN),
    (''lyncoin'', FLEX_LCN), (''x16rs'', X16RS_HAC), (''hac'', X16RS_HAC), (''hacash'', X16RS_HAC),
    (''verushash'', VERUSHASH), (''vrsc'', VERUSHASH), (''verus'', VERUSHASH), (''rx/xcb'', RX_XCB),
    (''xcb'', RX_XCB), (''randomy'', RX_XCB), (''kryptokrona'', KRYPTOKRONA_V2),
    (''xkr'', KRYPTOKRONA_V2), (''cn-turtle-lite/2'', KRYPTOKRONA_V2), (''cn/gpu'', CN_GPU),
    (''cryptonight-gpu'', CN_GPU), (''cryptonight/gpu'', CN_GPU), (''cn-gpu'', CN_GPU)]"

text \<open>\<^verbatim>\<open>strcasecmp(a, b) == 0\<close> in the C locale.\<close>

definition lower_char :: "char \<Rightarrow> char" where
  "lower_char c = (let n = of_char c :: nat in if 65 \<le> n \<and> n \<le> 90 then char_of (n + 32) else c)"

definition same_name :: "string \<Rightarrow> string \<Rightarrow> bool" where
  "same_name a b \<longleftrightarrow> map lower_char a = map lower_char b"

definition parse :: "string \<Rightarrow> algo_id" where
  "parse name =
     (if length name < 1 then INVALID
      else case find (\<lambda>(a, _). same_name a name) kAlgorithmAliases of
        Some (_, i) \<Rightarrow> i | None \<Rightarrow> INVALID)"

definition isCN :: "algo_id \<Rightarrow> bool" where
  "isCN i \<longleftrightarrow> i AND 0xff000000 = FAM_CN_ANY"

definition algo_base :: "algo_id \<Rightarrow> algo_id" where
  "algo_base i = (if isCN i then CN_0 OR (i AND 0xff00) else INVALID)"

definition family :: "algo_id \<Rightarrow> u32" where
  "family i = i AND (if isCN i then 0xffff0000 else 0xff000000)"

definition l2 :: "algo_id \<Rightarrow> u64" where
  "l2 i = (if family i = FAM_RANDOM_X then ucast (push_bit (unat (drop_bit 8 i AND 0xff)) (1 :: u32)) else 0)"

definition l3 :: "algo_id \<Rightarrow> u64" where
  "l3 i = push_bit (unat (drop_bit 16 i AND 0xff)) 1"

definition isValid :: "algo_id \<Rightarrow> bool" where
  "isValid i \<longleftrightarrow> i \<noteq> INVALID \<and> FAM_UNKNOWN < family i"

definition isBitcoinStratum :: "algo_id \<Rightarrow> bool" where
  "isBitcoinStratum i \<longleftrightarrow> i = GHOSTRIDER_RTM \<or> i = YESPOWER_R16 \<or> i = YESPOWER_TIDE \<or> i = YESCRYPT_R8
     \<or> i = YESCRYPT_R16 \<or> i = YESCRYPT_R32 \<or> i = FLEX_KCN \<or> i = FLEX_LCN \<or> i = VERUSHASH"

definition minIntensity :: "algo_id \<Rightarrow> u32" where
  "minIntensity i = (if i = GHOSTRIDER_RTM then 8 else 1)"

definition maxIntensity :: "algo_id \<Rightarrow> u32" where
  "maxIntensity i = (if isCN i then 5 else if i = GHOSTRIDER_RTM then 8 else 1)"

text \<open>The constructor from a number, the name (\<open>kINVALID\<close> for an invalid identifier) and the
  list of all algorithms that pass a filter.\<close>

definition algo_of_id :: "u32 \<Rightarrow> algo_id" where
  "algo_of_id i = (if map_of kAlgorithmNames i \<noteq> None then i else INVALID)"

definition algo_name :: "algo_id \<Rightarrow> string" where
  "algo_name i =
     (if \<not> isValid i then ''invalid''
      else case map_of kAlgorithmNames i of Some n \<Rightarrow> n | None \<Rightarrow> ''invalid'')"

definition algo_order :: "algo_id list" where
  "algo_order = [
    CN_0, CN_1, CN_2, CN_R, CN_FAST, CN_HALF, CN_XAO, CN_RTO, CN_RWZ, CN_ZLS, CN_DOUBLE, CN_CCX,
    CN_LITE_0, CN_LITE_1, CN_HEAVY_0, CN_HEAVY_TUBE, CN_HEAVY_XHV, CN_PICO_0, CN_PICO_TLO, CN_UPX2,
    RX_0, RX_V2, RX_WOW, RX_ARQ, RX_GRAFT, RX_SFX, RX_YADA, RX_EPIC, RX_VEIL, RX_C64, RX_SCASH,
    RX_PP, RX_XLA, RX_KEVA, AR2_CHUKWA, AR2_CHUKWA_V2, AR2_WRKZ, KAWPOW_RVN, GHOSTRIDER_RTM,
    YESPOWER_R16, YESPOWER_TIDE, YESCRYPT_R8, YESCRYPT_R16, YESCRYPT_R32, FLEX_KCN, FLEX_LCN,
    X16RS_HAC, VERUSHASH, RX_XCB, KRYPTOKRONA_V2, CN_GPU]"

definition algo_all :: "(algo_id \<Rightarrow> bool) \<Rightarrow> algo_id list" where
  "algo_all f = filter (\<lambda>i. map_of kAlgorithmNames i \<noteq> None \<and> f i) algo_order"

section \<open>Lemmas\<close>

lemma same_name_refl [simp]: "same_name a a"
  by (simp add: same_name_def)

lemma lower_lower [simp]: "lower_char (lower_char c) = lower_char c"
proof -
  have "of_char (char_of (n + 32) :: char) = n + 32" if "n \<le> 90" for n :: nat
    using that by simp
  then show ?thesis by (simp add: lower_char_def Let_def)
qed

lemma algo_tables_lower:
  "list_all (\<lambda>(i, n). map lower_char n = n \<and> n \<noteq> []) kAlgorithmNames"
  "list_all (\<lambda>(a, i). map lower_char a = a) kAlgorithmAliases"
  by (simp_all add: kAlgorithmNames_def kAlgorithmAliases_def lower_char_def)

lemma algo_names_distinct: "distinct (map fst kAlgorithmNames)" "distinct (map snd kAlgorithmNames)"
  by (simp_all add: kAlgorithmNames_def algo_id_defs)

lemma algo_names_valid: "list_all (\<lambda>(i, n). isValid i) kAlgorithmNames"
  by (simp add: kAlgorithmNames_def algo_id_defs isValid_def family_def isCN_def family_defs)

lemma algo_names_aliases: "list_all (\<lambda>(i, n). map_of kAlgorithmAliases n = Some i) kAlgorithmNames"
  unfolding kAlgorithmNames_def list.pred_inject prod.case
  by (intro conjI list.pred_inject(1); simp only: kAlgorithmAliases_def map_of_Cons_code list.inject char.inject simp_thms
    if_True if_False list.distinct)

lemma algo_aliases_names: "snd ` set kAlgorithmAliases \<subseteq> fst ` set kAlgorithmNames"
  by (simp add: kAlgorithmNames_def kAlgorithmAliases_def)

lemma find_map_of:
  "list_all (\<lambda>(a, i). map lower_char a = a) t \<Longrightarrow> map lower_char n = n \<Longrightarrow>
    (case find (\<lambda>(a, _). same_name a n) t of Some (_, i) \<Rightarrow> Some i | None \<Rightarrow> None) = map_of t n"
  by (induction t) (auto simp: same_name_def split: option.splits)

lemma parse_lower: "map lower_char n = n \<Longrightarrow> n \<noteq> [] \<Longrightarrow> map_of kAlgorithmAliases n = Some i \<Longrightarrow> parse n = i"
  using find_map_of [OF algo_tables_lower(2), of n] by (auto simp: parse_def split: option.splits)

lemma parse_rx_0: "parse ''rx/0'' = RX_0"
proof (rule parse_lower)
  show "map_of kAlgorithmAliases ''rx/0'' = Some RX_0"
    by (simp only: kAlgorithmAliases_def map_of_Cons_code list.inject char.inject simp_thms if_True if_False
      list.distinct)
qed (simp_all add: lower_char_def)

text \<open>C28. Names are parsed back: for every algorithm of the build, \<open>parse\<close> of its name is the
  algorithm, which is valid, and no two algorithms share a code or a name.\<close>

theorem algo_names_roundtrip:
  "list_all (\<lambda>(i, n). isValid i \<and> algo_name i = n \<and> parse n = i) kAlgorithmNames
    \<and> distinct (map fst kAlgorithmNames) \<and> distinct (map snd kAlgorithmNames)"
  using algo_names_valid algo_tables_lower(1) algo_names_aliases algo_names_distinct
  by (fastforce simp: list_all_iff algo_name_def parse_lower map_of_is_SomeI)

text \<open>C40. \<open>parse\<close> ignores case, and whatever the name, the result is invalid or an algorithm of
  the build.\<close>

theorem algo_parse_total:
  "parse (map lower_char s) = parse s \<and> (parse s = INVALID \<or> parse s \<in> fst ` set kAlgorithmNames)"
proof -
  have "same_name a (map lower_char s) = same_name a s" for a
    by (simp add: same_name_def o_def)
  moreover have "i \<in> fst ` set kAlgorithmNames" if "find P kAlgorithmAliases = Some (a, i)" for P a i
  proof -
    have "(a, i) \<in> set kAlgorithmAliases" using that by (metis find_Some_iff nth_mem)
    then show ?thesis using algo_aliases_names by force
  qed
  ultimately show ?thesis
    by (auto simp: parse_def split: option.splits)
qed

end
