(* ===== verification/FeeTable.thy ===== *)
theory FeeTable
  imports Algorithm
begin

text \<open>
  The fee routes, from \<^verbatim>\<open>src/src/net/strategies/FeeTable.h\<close> and
  \<^verbatim>\<open>FeeTable.cpp\<close>: the built-in table, the signed updates from the operator and their
  schedule, for the release build with TLS and HTTP. Strings are lists of bytes (\<^typ>\<open>char\<close>);
  where the code passes \<^verbatim>\<open>const char *\<close>, the model cuts the string at its first zero byte
  (\<open>c_str\<close>). The 64 bit times and counters are words.

  What the code takes from libraries is a parameter of the definitions that use it:
  \<^item> \<open>json_parse\<close>: rapidjson's \<^verbatim>\<open>Document::Parse\<close> on a zero-terminated string, as an option
    of a JSON value (\<open>None\<close> for a parse error);
  \<^item> \<open>ed25519_verify\<close>: OpenSSL's \<^verbatim>\<open>EVP_DigestVerify\<close> with an Ed25519 public key;
  \<^item> the clocks \<open>time(nullptr)\<close> (seconds) and \<^verbatim>\<open>Chrono::steadyMSecs()\<close>, the environment
    variable and the answer of the HTTP server: arguments of the operations.
\<close>

section \<open>Data\<close>

text \<open>A JSON value as rapidjson presents it. \<open>JInt\<close> is an integer literal.\<close>

datatype json = JNull | JBool bool | JInt int | JDouble | JString string | JArray "json list"
  | JObject "(string \<times> json) list"

definition c_str :: "string \<Rightarrow> string" where
  "c_str s = takeWhile (\<lambda>c. c \<noteq> CHR 0x00) s"

text \<open>\<^verbatim>\<open>HasMember\<close> and \<^verbatim>\<open>operator[]\<close>, with the type tests.\<close>

fun member :: "string \<Rightarrow> json \<Rightarrow> json option" where
  "member name (JObject ms) = map_of ms name"
| "member name _ = None"

fun get_string :: "json option \<Rightarrow> string option" where
  "get_string (Some (JString s)) = Some s"
| "get_string _ = None"

fun get_uint :: "json option \<Rightarrow> int option" where
  "get_uint (Some (JInt n)) = (if 0 \<le> n \<and> n < 2 ^ 32 then Some n else None)"
| "get_uint _ = None"

fun get_uint64 :: "json option \<Rightarrow> u64 option" where
  "get_uint64 (Some (JInt n)) = (if 0 \<le> n \<and> n < 2 ^ 64 then Some (word_of_int n) else None)"
| "get_uint64 _ = None"

fun get_bool :: "json option \<Rightarrow> bool option" where
  "get_bool (Some (JBool b)) = Some b"
| "get_bool _ = None"

fun get_array :: "json option \<Rightarrow> json list option" where
  "get_array (Some (JArray vs)) = Some vs"
| "get_array _ = None"

datatype FeeTarget = CPU | GPU

datatype pool_mode = MODE_POOL | MODE_DAEMON | MODE_SELF_SELECT | MODE_AUTO_ETH | MODE_EPIC | MODE_HACASH
  | MODE_BENCHMARK

record FeeRoute =
  r_target :: FeeTarget
  r_mode :: pool_mode
  r_algo :: algo_id
  r_host :: string
  r_port :: u16
  r_tls :: bool
  r_user :: string
  r_pass :: string
  r_label :: string

definition kFirstFetchDelay :: u64 where
  "kFirstFetchDelay = 20 * 1000"

definition kRefreshInterval :: u64 where
  "kRefreshInterval = 4 * 3600 * 1000"

definition kRetryInterval :: u64 where
  "kRetryInterval = 30 * 60 * 1000"

definition kMaxBody :: nat where
  "kMaxBody = 16 * 1024"

definition kMaxRoutes :: nat where
  "kMaxRoutes = 12"

definition kMaxValidity :: u64 where
  "kMaxValidity = 200 * 24 * 3600"

definition fee_pubkey_hex :: string where
  "fee_pubkey_hex = ''6553e96e4ca9f185b28db45e7601e249ef212cda8d234448eaf8371797ca571e''"

definition xmr_login :: string where
  "xmr_login = ''86xLVPPdcaCCvrHj612CrSUWvHCFS6f25ipkJUo21VZ8Gni5689gFobF5JNDAqTawMbyqSnRcHCSvbVpFrRNF8ZsL1Nwrov.fee''"

definition rvn_login :: string where
  "rvn_login = ''RHeavLeNcykcBoeb9eHnBXMzbnX7T3Ra6y.fee''"

definition xmr_label :: string where
  "xmr_label = ''Monero (RandomX) on Nanopool, the pool operator'' @ CHR 0x27 # ''s wallet''"

definition rvn_label :: string where
  "rvn_label = ''Ravencoin (KawPow) on Nanopool, the pool operator'' @ CHR 0x27 # ''s wallet''"

section \<open>The table\<close>

definition route :: "FeeTarget \<Rightarrow> pool_mode \<Rightarrow> algo_id \<Rightarrow> string \<Rightarrow> u16 \<Rightarrow> string \<Rightarrow> string \<Rightarrow> FeeRoute" where
  "route target mode algo host port user label =
     \<lparr> r_target = target, r_mode = mode, r_algo = algo, r_host = host, r_port = port, r_tls = True,
       r_user = user, r_pass = ''x'', r_label = label \<rparr>"

definition builtin :: "FeeRoute list" where
  "builtin = [
    route CPU MODE_POOL RX_0 ''xmr-eu1.nanopool.org'' 10343 xmr_login xmr_label,
    route CPU MODE_POOL RX_0 ''xmr-eu2.nanopool.org'' 10343 xmr_login xmr_label,
    route CPU MODE_POOL RX_0 ''xmr-us-east1.nanopool.org'' 10343 xmr_login xmr_label,
    route GPU MODE_AUTO_ETH KAWPOW_RVN ''rvn-eu1.nanopool.org'' 10443 rvn_login rvn_label,
    route GPU MODE_AUTO_ETH KAWPOW_RVN ''rvn-eu2.nanopool.org'' 10443 rvn_login rvn_label,
    route GPU MODE_AUTO_ETH KAWPOW_RVN ''rvn-us-east1.nanopool.org'' 10443 rvn_login rvn_label]"

record fee_state =
  f_gpu :: bool
  f_current :: "FeeRoute list"
  f_version :: u64
  f_source :: string
  f_sequence :: u64
  f_started :: bool
  f_busy :: bool
  f_next :: u64

definition fee_init :: fee_state where
  "fee_init = \<lparr> f_gpu = False, f_current = [], f_version = 1, f_source = ''built-in'', f_sequence = 0,
     f_started = False, f_busy = False, f_next = 0 \<rparr>"

text \<open>\<^verbatim>\<open>state()\<close>, through which every operation reaches the state.\<close>

definition fee_get :: "fee_state \<Rightarrow> fee_state" where
  "fee_get s = (if f_current s = [] then s\<lparr> f_current := builtin \<rparr> else s)"

definition usable :: "FeeRoute \<Rightarrow> bool" where
  "usable r \<longleftrightarrow> r_host r \<noteq> [] \<and> r_port r \<noteq> 0"

definition setGpu :: "bool \<Rightarrow> fee_state \<Rightarrow> fee_state" where
  "setGpu gpu s = (fee_get s)\<lparr> f_gpu := gpu \<rparr>"

definition target :: "fee_state \<Rightarrow> FeeTarget" where
  "target s = (if f_gpu (fee_get s) then GPU else CPU)"

definition routes :: "FeeTarget \<Rightarrow> fee_state \<Rightarrow> FeeRoute list" where
  "routes t s = filter (\<lambda>r. r_target r = t \<and> usable r) (f_current (fee_get s))"

definition mainRoute :: "fee_state \<Rightarrow> FeeRoute option" where
  "mainRoute s = (case routes (target s) s of [] \<Rightarrow> None | r # _ \<Rightarrow> Some r)"

definition version :: "fee_state \<Rightarrow> u64" where
  "version s = f_version (fee_get s)"

section \<open>Decoding\<close>

definition hexDigit :: "char \<Rightarrow> nat option" where
  "hexDigit c =
     (let n = of_char c :: nat
      in if 48 \<le> n \<and> n \<le> 57 then Some (n - 48)
         else if 97 \<le> n \<and> n \<le> 102 then Some (n - 97 + 10)
         else if 65 \<le> n \<and> n \<le> 70 then Some (n - 65 + 10) else None)"

text \<open>Reading past the end of the string meets its zero byte, which is not a digit.\<close>

fun hexValue :: "string \<Rightarrow> nat \<Rightarrow> bytes option" where
  "hexValue hex 0 = Some []"
| "hexValue (a # b # hex) (Suc n) =
     (case (hexDigit a, hexDigit b) of
        (Some x, Some y) \<Rightarrow> map_option (\<lambda>out. of_nat (x * 16 + y) # out) (hexValue hex n)
      | _ \<Rightarrow> None)"
| "hexValue _ (Suc n) = None"

definition kAlphabet :: string where
  "kAlphabet = ''ABCDEFGHIJKLMNOPQRSTUVWXYZabcdefghijklmnopqrstuvwxyz0123456789+/''"

text \<open>\<^verbatim>\<open>strchr(kAlphabet, c) - kAlphabet\<close> for a character that is not 0.\<close>

fun strchr_pos :: "string \<Rightarrow> char \<Rightarrow> nat option" where
  "strchr_pos [] c = None"
| "strchr_pos (x # xs) c = (if x = c then Some 0 else map_option Suc (strchr_pos xs c))"

fun base64_loop :: "string \<Rightarrow> u32 \<Rightarrow> nat \<Rightarrow> nat \<Rightarrow> string \<Rightarrow> string option" where
  "base64_loop [] acc bits pad out = (if pad < 3 then Some out else None)"
| "base64_loop (c # text) acc bits pad out =
     (if c = CHR ''='' then base64_loop text acc bits (Suc pad) out
      else if c = CHR 0x0A \<or> c = CHR 0x0D \<or> c = CHR '' '' then base64_loop text acc bits pad out
      else case (if pad \<noteq> 0 then None else if c = CHR 0x00 then None else strchr_pos kAlphabet c) of
        None \<Rightarrow> None
      | Some p \<Rightarrow>
          let acc = push_bit 6 acc OR of_nat p; bits = bits + 6
          in if 8 \<le> bits
             then base64_loop text acc (bits - 8) pad (out @ [char_of (unat (drop_bit (bits - 8) acc AND 0xff))])
             else base64_loop text acc bits pad out)"

definition base64Decode :: "string \<Rightarrow> string option" where
  "base64Decode text = base64_loop text 0 0 0 []"

definition verifySignature :: "(bytes \<Rightarrow> string \<Rightarrow> string \<Rightarrow> bool) \<Rightarrow> string \<Rightarrow> string \<Rightarrow> bool" where
  "verifySignature ed25519_verify message signature =
     (if length signature \<noteq> 64 then False
      else case hexValue fee_pubkey_hex 32 of
        None \<Rightarrow> False
      | Some pub \<Rightarrow> ed25519_verify pub signature message)"

definition textOk :: "string \<Rightarrow> nat \<Rightarrow> bool" where
  "textOk s maxLen =
     (let n = length s
      in if n = 0 \<or> n > maxLen then False
         else list_all (\<lambda>c. 0x20 \<le> (of_char c :: nat) \<and> (of_char c :: nat) \<le> 0x7e) s)"

definition hostChar :: "char \<Rightarrow> bool" where
  "hostChar c =
     (let n = of_char c :: nat
      in (97 \<le> n \<and> n \<le> 122) \<or> (65 \<le> n \<and> n \<le> 90) \<or> (48 \<le> n \<and> n \<le> 57) \<or> n = 46 \<or> n = 45)"

definition hostOk :: "string \<Rightarrow> bool" where
  "hostOk s = (let n = length s in if n = 0 \<or> n > 100 then False else list_all hostChar s)"

section \<open>Updates\<close>

text \<open>The fields of a route are read as zero-terminated strings.\<close>

definition route_str :: "json \<Rightarrow> string \<Rightarrow> string option" where
  "route_str v name = map_option c_str (get_string (member name v))"

definition parse_target :: "string \<Rightarrow> FeeTarget option" where
  "parse_target t = (if t = ''cpu'' then Some CPU else if t = ''gpu'' then Some GPU else None)"

definition parse_mode :: "string \<Rightarrow> pool_mode option" where
  "parse_mode m =
     (if m = ''pool'' then Some MODE_POOL
      else if m = ''auto_eth'' then Some MODE_AUTO_ETH
      else if m = ''epic'' then Some MODE_EPIC else None)"

definition parseRoute :: "json \<Rightarrow> FeeRoute option" where
  "parseRoute v =
     (case (route_str v ''target'', route_str v ''algo'', route_str v ''mode'', route_str v ''host'',
            route_str v ''user'', route_str v ''label'', get_uint (member ''port'' v), get_bool (member ''tls'' v)) of
        (Some tgt, Some algo, Some mode, Some host, Some user, Some label, Some port, Some tls) \<Rightarrow>
          let pass = route_str v ''pass''
          in (case (parse_target tgt, parse_mode mode) of
                (Some t, Some m) \<Rightarrow>
                  let a = parse algo
                  in if \<not> isValid a \<or> (t = CPU \<and> family a = FAM_KAWPOW) then None
                     else if port = 0 \<or> port > 65535 \<or> \<not> hostOk host \<or> \<not> textOk user 200 \<or> \<not> textOk label 120
                       \<or> (case pass of None \<Rightarrow> False | Some p \<Rightarrow> \<not> textOk p 64) then None
                     else Some \<lparr> r_target = t, r_mode = m, r_algo = a, r_host = host, r_port = word_of_int port,
                       r_tls = tls, r_user = user, r_pass = (case pass of None \<Rightarrow> ''x'' | Some p \<Rightarrow> p), r_label = label \<rparr>
              | _ \<Rightarrow> None)
      | _ \<Rightarrow> None)"

text \<open>Why a file is ignored: the texts of \<open>why\<close>.\<close>

datatype fee_why = WrongSize | NotSigned | BadEncoding | InvalidSignature | UnsupportedContent
  | NotNewer | Expired | WrongNumber | InvalidRoute | NoAnswer

fun parse_routes :: "json list \<Rightarrow> FeeRoute list option" where
  "parse_routes [] = Some []"
| "parse_routes (v # vs) =
     (case parseRoute v of None \<Rightarrow> None | Some r \<Rightarrow> map_option (\<lambda>rs. r # rs) (parse_routes vs))"

text \<open>The remote routes, and the built-in ones of the targets that the file does not mention.\<close>

definition merge_routes :: "FeeRoute list \<Rightarrow> FeeRoute list" where
  "merge_routes remote =
     (let cpu = list_ex (\<lambda>r. r_target r = CPU) remote; gpu = list_ex (\<lambda>r. r_target r = GPU) remote
      in remote @ filter (\<lambda>r. (r_target r = CPU \<and> \<not> cpu) \<or> (r_target r = GPU \<and> \<not> gpu)) builtin)"

fun digits10 :: "nat \<Rightarrow> string" where
  "digits10 n = (if n < 10 then [char_of (48 + n)] else digits10 (n div 10) @ [char_of (48 + n mod 10)])"

declare digits10.simps [simp del]

text \<open>The payload of a verified file.\<close>

definition apply_payload :: "(string \<Rightarrow> json option) \<Rightarrow> u64 \<Rightarrow> string \<Rightarrow> fee_state \<Rightarrow> fee_why + fee_state" where
  "apply_payload json_parse now payload s =
     (case json_parse (c_str payload) of
        None \<Rightarrow> Inl UnsupportedContent
      | Some doc \<Rightarrow>
          if get_uint (member ''v'' doc) \<noteq> Some 1 then Inl UnsupportedContent
          else (case (get_uint64 (member ''seq'' doc), get_uint64 (member ''expires'' doc),
                      get_array (member ''routes'' doc)) of
            (Some sequence, Some expires, Some list) \<Rightarrow>
              if sequence \<le> f_sequence s then Inl NotNewer
              else if expires \<le> now \<or> expires > now + kMaxValidity then Inl Expired
              else if length list = 0 \<or> length list > kMaxRoutes then Inl WrongNumber
              else (case parse_routes list of
                None \<Rightarrow> Inl InvalidRoute
              | Some remote \<Rightarrow>
                  Inr (s\<lparr> f_current := merge_routes remote, f_sequence := sequence,
                    f_source := ''updated by the operator, sequence '' @ digits10 (unat sequence),
                    f_version := f_version s + 1 \<rparr>))
          | _ \<Rightarrow> Inl UnsupportedContent))"

definition apply_file ::
  "(string \<Rightarrow> json option) \<Rightarrow> (bytes \<Rightarrow> string \<Rightarrow> string \<Rightarrow> bool) \<Rightarrow> u64 \<Rightarrow> string \<Rightarrow> fee_state
    \<Rightarrow> fee_why + fee_state" where
  "apply_file json_parse ed25519_verify now body s0 =
     (let s = fee_get s0
      in if body = [] \<or> length body > kMaxBody then Inl WrongSize
         else (case json_parse (c_str body) of
           None \<Rightarrow> Inl NotSigned
         | Some envelope \<Rightarrow>
             (case (get_string (member ''data'' envelope), get_string (member ''sig'' envelope)) of
               (Some data, Some sig) \<Rightarrow>
                 (case (base64Decode data, base64Decode sig) of
                   (Some payload, Some signature) \<Rightarrow>
                     if \<not> verifySignature ed25519_verify payload signature then Inl InvalidSignature
                     else apply_payload json_parse now payload s
                 | _ \<Rightarrow> Inl BadEncoding)
             | _ \<Rightarrow> Inl NotSigned)))"

text \<open>The listener of the HTTP client, \<open>FeeTable::start\<close> and \<open>FeeTable::tick\<close>, whose second
  result says whether the file is requested.\<close>

definition onHttpData ::
  "(string \<Rightarrow> json option) \<Rightarrow> (bytes \<Rightarrow> string \<Rightarrow> string \<Rightarrow> bool) \<Rightarrow> u64 \<Rightarrow> u64 \<Rightarrow> int \<Rightarrow> string
    \<Rightarrow> fee_state \<Rightarrow> fee_state" where
  "onHttpData json_parse ed25519_verify now steady status body s0 =
     (let s = (fee_get s0)\<lparr> f_busy := False \<rparr>;
          result = (if status = 200 then apply_file json_parse ed25519_verify now body s else Inl NoAnswer)
      in case result of
           Inr s' \<Rightarrow> s'\<lparr> f_next := steady + kRefreshInterval \<rparr>
         | Inl why \<Rightarrow>
             if status = 200 \<and> why = NotNewer then s\<lparr> f_next := steady + kRefreshInterval \<rparr>
             else s\<lparr> f_next := steady + kRetryInterval \<rparr>)"

definition fee_start :: "string option \<Rightarrow> u64 \<Rightarrow> fee_state \<Rightarrow> fee_state" where
  "fee_start off steady s0 =
     (let s = fee_get s0
      in if f_started s \<or> (case off of None \<Rightarrow> False | Some v \<Rightarrow> v \<noteq> [] \<and> v \<noteq> ''0'') then s
         else s\<lparr> f_started := True, f_next := steady + kFirstFetchDelay \<rparr>)"

definition fee_tick :: "u64 \<Rightarrow> fee_state \<Rightarrow> fee_state \<times> bool" where
  "fee_tick now s0 =
     (let s = fee_get s0
      in if \<not> f_started s \<or> f_busy s \<or> now < f_next s then (s, False)
         else (s\<lparr> f_busy := True, f_next := now + kRetryInterval \<rparr>, True))"

end
