(* ===== verification/Base64.thy ===== *)
theory Base64
  imports FeeTable
begin

text \<open>
  The base64 decoder of \<open>FeeTable\<close> against the encoding of RFC 4648. The 32 bit accumulator of
  the decoder overflows on long inputs; only its low bits reach the output, so its value is tracked
  modulo \<open>2 ^ 32\<close>.
\<close>

text \<open>The encoding of RFC 4648, with padding.\<close>

definition sextet :: "nat \<Rightarrow> char" where
  "sextet k = kAlphabet ! k"

fun base64Encode :: "string \<Rightarrow> string" where
  "base64Encode [] = []"
| "base64Encode [a] =
     (let a = of_char a in [sextet (a div 4), sextet (a mod 4 * 16), CHR ''='', CHR ''=''])"
| "base64Encode [a, b] =
     (let a = of_char a; b = of_char b
      in [sextet (a div 4), sextet (a mod 4 * 16 + b div 16), sextet (b mod 16 * 4), CHR ''=''])"
| "base64Encode (a # b # c # r) =
     (let x = of_char a; y = of_char b; z = of_char c
      in sextet (x div 4) # sextet (x mod 4 * 16 + y div 16) # sextet (y mod 16 * 4 + z div 64)
         # sextet (z mod 64) # base64Encode r)"

lemma sextet_table:
  "list_all (\<lambda>k. strchr_pos kAlphabet (sextet k) = Some k \<and> sextet k \<noteq> CHR ''='' \<and> sextet k \<noteq> CHR 0x0A
    \<and> sextet k \<noteq> CHR 0x0D \<and> sextet k \<noteq> CHR '' '' \<and> sextet k \<noteq> CHR 0x00) [0..<64]"
  by code_simp

lemma sextet_pos:
  assumes "k < 64"
  shows "strchr_pos kAlphabet (sextet k) = Some k" "sextet k \<noteq> CHR ''=''" "sextet k \<noteq> CHR 0x0A"
    "sextet k \<noteq> CHR 0x0D" "sextet k \<noteq> CHR '' ''" "sextet k \<noteq> CHR 0x00"
  using sextet_table assms unfolding list_all_iff by auto

lemma uint_acc:
  assumes "k < 64"
  shows "uint (push_bit 6 acc OR of_nat k :: u32) = (uint acc * 64 + int k) mod 2 ^ 32"
proof -
  have "uint (of_nat k :: u32) = int k" using assms by (simp add: unsigned_of_nat take_bit_nat_eq_self)
  moreover have "take_bit 32 (push_bit 6 (uint acc)) = push_bit 6 (take_bit 26 (uint acc))"
    by (simp add: take_bit_push_bit)
  ultimately have "uint (push_bit 6 acc OR of_nat k :: u32) = int k OR push_bit 6 (take_bit 26 (uint acc))"
    by (simp only: unsigned_or_eq unsigned_push_bit_eq or.commute) simp
  also have "\<dots> = int k + 64 * take_bit 26 (uint acc)"
    using concat_bit_eq [of 6 "int k" "take_bit 26 (uint acc)"] assms
    by (simp add: concat_bit_def push_bit_eq_mult take_bit_int_eq_self mult.commute)
  also have "\<dots> = (uint acc * 64 + int k) mod 2 ^ 32"
  proof -
    have "(int k + 64 * uint acc) mod (64 * 2 ^ 26) = int k mod 64 + 64 * ((int k + 64 * uint acc) div 64 mod 2 ^ 26)"
      by (subst zmod_zmult2_eq) simp_all
    moreover have "(int k + 64 * uint acc) div 64 = uint acc" "int k mod 64 = int k" using assms by simp_all
    ultimately show ?thesis by (simp add: take_bit_eq_mod ac_simps)
  qed
  finally show ?thesis .
qed

lemma acc_byte: "unat (drop_bit b (acc :: u32) AND 0xff) = nat (digit b 8 (uint acc))"
proof -
  have m: "(0xff :: u32) = mask 8" by (simp add: mask_eq_exp_minus_1)
  have "uint (drop_bit b acc AND 0xff) = take_bit 8 (drop_bit b (uint acc))"
    unfolding m using uint_lt2p [of acc]
    by (simp only: take_bit_eq_mask [symmetric] unsigned_take_bit_eq unsigned_drop_bit_eq)
      (simp add: take_bit_int_eq_self)
  then show ?thesis by (simp add: unat_eq_nat_uint digit_def take_bit_eq_mod drop_bit_eq_div)
qed

text \<open>One character: the accumulator is tracked by its value modulo \<open>2 ^ 32\<close>.\<close>

definition acc_is :: "u32 \<Rightarrow> int \<Rightarrow> bool" where
  "acc_is acc x \<longleftrightarrow> uint acc = x mod 2 ^ 32"

definition next_acc :: "u32 \<Rightarrow> nat \<Rightarrow> u32" where
  "next_acc acc k = push_bit 6 acc OR of_nat k"

lemma acc_is_next: "k < 64 \<Longrightarrow> acc_is acc x \<Longrightarrow> acc_is (next_acc acc k) (x * 64 + int k)"
  unfolding acc_is_def next_acc_def by (simp only: uint_acc) (metis mod_add_left_eq mod_mult_left_eq)

lemma loop_sextet:
  assumes "k < 64"
  shows "base64_loop (sextet k # t) acc bits 0 out =
    (if 2 \<le> bits
     then base64_loop t (next_acc acc k) (bits - 2) 0 (out @ [char_of (nat (digit (bits - 2) 8 (uint (next_acc acc k))))])
     else base64_loop t (next_acc acc k) (bits + 6) 0 out)"
  by (simp add: sextet_pos [OF assms] Let_def acc_byte flip: next_acc_def)

lemma acc_digit: "acc_is acc x \<Longrightarrow> b + 8 \<le> 32 \<Longrightarrow> digit b 8 (uint acc) = digit b 8 x"
  using digit_digit [of b 8 32 0 x] by (simp add: acc_is_def digit_def)

text \<open>The bytes in the accumulator.\<close>

lemma digit_cut:
  assumes "0 \<le> r" and "r < 2 ^ p" and "x < 256"
  shows "digit p 8 (2 ^ p * (B * 256 + int x) + r) = int x"
proof -
  have "(2 ^ p * (B * 256 + int x) + r) div 2 ^ p = B * 256 + int x" using assms by simp
  then show ?thesis using assms(3) by (simp add: digit_def)
qed

lemma bytes_at:
  fixes A :: int and x y z :: nat
  assumes "x < 256" and "y < 256" and "z < 256"
  shows "digit 4 8 ((A * 64 + int (x div 4)) * 64 + int (x mod 4 * 16 + y div 16)) = int x"
    and "digit 2 8 (((A * 64 + int (x div 4)) * 64 + int (x mod 4 * 16 + y div 16)) * 64
      + int (y mod 16 * 4 + z div 64)) = int y"
    and "digit 0 8 ((((A * 64 + int (x div 4)) * 64 + int (x mod 4 * 16 + y div 16)) * 64
      + int (y mod 16 * 4 + z div 64)) * 64 + int (z mod 64)) = int z"
proof -
  have x: "int x = 4 * int (x div 4) + int (x mod 4)" and y: "int y = 16 * int (y div 16) + int (y mod 16)"
    and z: "int z = 64 * int (z div 64) + int (z mod 64)"
    using arg_cong [OF mult_div_mod_eq [of 4 x, symmetric], of int]
      arg_cong [OF mult_div_mod_eq [of 16 y, symmetric], of int]
      arg_cong [OF mult_div_mod_eq [of 64 z, symmetric], of int]
    by (simp_all only: of_nat_add of_nat_mult of_nat_numeral)
  have b: "int (y div 16) < 2 ^ 4" "int (z div 64) < 2 ^ 2" "0 \<le> int (y div 16)" "0 \<le> int (z div 64)"
    using assms by auto
  have 1: "(A * 64 + int (x div 4)) * 64 + int (x mod 4 * 16 + y div 16) = 2 ^ 4 * (A * 256 + int x) + int (y div 16)"
    using x by simp
  have 2: "((A * 64 + int (x div 4)) * 64 + int (x mod 4 * 16 + y div 16)) * 64 + int (y mod 16 * 4 + z div 64)
      = 2 ^ 2 * ((A * 256 + int x) * 256 + int y) + int (z div 64)"
    using x y by simp
  have 3: "(((A * 64 + int (x div 4)) * 64 + int (x mod 4 * 16 + y div 16)) * 64
      + int (y mod 16 * 4 + z div 64)) * 64 + int (z mod 64)
      = 2 ^ 0 * (((A * 256 + int x) * 256 + int y) * 256 + int z) + 0"
    unfolding 2 using z by simp
  show "digit 4 8 ((A * 64 + int (x div 4)) * 64 + int (x mod 4 * 16 + y div 16)) = int x"
    unfolding 1 using b assms by (intro digit_cut)
  show "digit 2 8 (((A * 64 + int (x div 4)) * 64 + int (x mod 4 * 16 + y div 16)) * 64
      + int (y mod 16 * 4 + z div 64)) = int y"
    unfolding 2 using b assms by (intro digit_cut)
  show "digit 0 8 ((((A * 64 + int (x div 4)) * 64 + int (x mod 4 * 16 + y div 16)) * 64
      + int (y mod 16 * 4 + z div 64)) * 64 + int (z mod 64)) = int z"
    unfolding 3 using assms by (intro digit_cut) simp_all
qed

lemma sextets_less:
  fixes x y z :: nat
  assumes "x < 256" and "y < 256" and "z < 256"
  shows "x div 4 < 64" "x mod 4 * 16 + y div 16 < 64" "y mod 16 * 4 + z div 64 < 64" "z mod 64 < 64"
proof -
  have "x mod 4 < 4" "y div 16 < 16" "y mod 16 < 16" "z div 64 < 4" using assms by auto
  then show "x mod 4 * 16 + y div 16 < 64" "y mod 16 * 4 + z div 64 < 64" by linarith+
qed (use assms in auto)

lemma of_char_less: "(of_char c :: nat) < 256"
  by simp

text \<open>The accumulators after two, three and four characters of a group and the bytes they give.\<close>

lemma group_bytes:
  fixes x y z :: nat
  assumes "acc_is acc A" and "x < 256" and "y < 256" and "z < 256"
  defines "acc2 \<equiv> next_acc (next_acc acc (x div 4)) (x mod 4 * 16 + y div 16)"
  defines "acc3 \<equiv> next_acc acc2 (y mod 16 * 4 + z div 64)"
  defines "acc4 \<equiv> next_acc acc3 (z mod 64)"
  shows "digit 4 8 (uint acc2) = int x" and "digit 2 8 (uint acc3) = int y" and "digit 0 8 (uint acc4) = int z"
    and "\<exists>B. acc_is acc4 B"
proof -
  note lt = sextets_less [OF assms(2-4)] and bytes = bytes_at [OF assms(2-4), of A]
  note a1 = acc_is_next [OF lt(1) assms(1)]
  note a2 = acc_is_next [OF lt(2) a1, folded acc2_def]
  note a3 = acc_is_next [OF lt(3) a2, folded acc3_def]
  note a4 = acc_is_next [OF lt(4) a3, folded acc4_def]
  show "digit 4 8 (uint acc2) = int x" "digit 2 8 (uint acc3) = int y" "digit 0 8 (uint acc4) = int z"
    using acc_digit [OF a2, of 4] acc_digit [OF a3, of 2] acc_digit [OF a4, of 0] bytes by simp_all
  show "\<exists>B. acc_is acc4 B" using a4 by blast
qed

lemma loop_pad:
  "base64_loop [CHR ''=''] acc bits 0 out = Some out"
  "base64_loop [CHR ''='', CHR ''=''] acc bits 0 out = Some out"
  by simp_all

lemma base64_loop_encode: "acc_is acc A \<Longrightarrow> base64_loop (base64Encode s) acc 0 0 out = Some (out @ s)"
proof (induction s arbitrary: acc A out rule: base64Encode.induct)
  case (2 a)
  note c = of_char_less [of a]
  note g = group_bytes [OF 2 c, of 0 0] and lt = sextets_less [OF c, of 0 0]
  show ?case using g(1) lt by (simp add: Let_def loop_sextet loop_pad del: base64_loop.simps)
next
  case (3 a b)
  note c = of_char_less [of a] of_char_less [of b]
  note g = group_bytes [OF 3 c, of 0] and lt = sextets_less [OF c, of 0]
  show ?case using g(1,2) lt by (simp add: Let_def loop_sextet loop_pad del: base64_loop.simps)
next
  case (4 a b c r)
  note l = of_char_less [of a] of_char_less [of b] of_char_less [of c]
  note g = group_bytes [OF "4.prems" l] and lt = sextets_less [OF l]
  obtain B where "acc_is (next_acc (next_acc (next_acc (next_acc acc (of_char a div 4))
    (of_char a mod 4 * 16 + of_char b div 16)) (of_char b mod 16 * 4 + of_char c div 64)) (of_char c mod 64)) B"
    using g(4) by blast
  note IH = "4.IH" [OF refl refl refl this]
  show ?case using g(1-3) lt IH by (simp add: Let_def loop_sextet del: base64_loop.simps)
qed simp


end
