(* ===== verification/Strategies.thy ===== *)
theory Strategies
  imports Prelude Algorithm
begin

text \<open>
  The connection strategies, from
  \<^verbatim>\<open>src/src/base/net/stratum/strategies/FailoverStrategy.{h,cpp}\<close> and
  \<^verbatim>\<open>SinglePoolStrategy.{h,cpp}\<close>. A strategy owns clients, which are numbered in the order of the
  pools, and tells its listener which of them is active. Clients work asynchronously: a command to a
  client (connect, disconnect) and a call of the listener are outputs of the operation, in the order in
  which the code makes them; what a client reports back later is another operation. Jobs, results
  and login parameters pass through unchanged and are not part of the outputs. The locale
  \<open>strategy_protocol\<close> is what the listener relies on; both strategies implement it.
\<close>

section \<open>Outputs\<close>

datatype s_action =
    ClientConnect nat | ClientDisconnect nat | ClientTick nat u64 | ClientSetAlgo nat algo_id | ClientSetProxy nat "string option"
  | ClientSubmit nat | OnPause | OnActive nat | OnJob nat | OnLogin nat | OnResult nat | OnVerify nat

section \<open>Failover\<close>

record failover =
  fo_retries :: int
  fo_pools :: nat
  fo_active :: int
  fo_index :: nat

definition failover_new :: "nat \<Rightarrow> int \<Rightarrow> failover" where
  "failover_new pools retries = \<lparr> fo_retries = retries, fo_pools = pools, fo_active = - 1, fo_index = 0 \<rparr>"

definition fo_add :: "failover \<Rightarrow> failover" where
  "fo_add s = s\<lparr> fo_pools := fo_pools s + 1 \<rparr>"

definition fo_isActive :: "failover \<Rightarrow> bool" where
  "fo_isActive s \<longleftrightarrow> 0 \<le> fo_active s"

definition fo_client :: "failover \<Rightarrow> nat" where
  "fo_client s = (if fo_isActive s then nat (fo_active s) else fo_index s)"

text \<open>\<open>submit\<close> without an active client returns -1 and has no output.\<close>

definition fo_submit :: "failover \<Rightarrow> s_action list" where
  "fo_submit s = (if \<not> fo_isActive s then [] else [ClientSubmit (nat (fo_active s))])"

definition fo_connect :: "failover \<Rightarrow> s_action list" where
  "fo_connect s = [ClientConnect (fo_index s)]"

definition fo_resume :: "failover \<Rightarrow> s_action list" where
  "fo_resume s = (if \<not> fo_isActive s then [] else [OnJob (nat (fo_active s))])"

definition fo_setAlgo :: "algo_id \<Rightarrow> failover \<Rightarrow> s_action list" where
  "fo_setAlgo algo s = map (\<lambda>i. ClientSetAlgo i algo) [0..<fo_pools s]"

definition fo_setProxy :: "string option \<Rightarrow> failover \<Rightarrow> s_action list" where
  "fo_setProxy proxy s = map (\<lambda>i. ClientSetProxy i proxy) [0..<fo_pools s]"

definition fo_stop :: "failover \<Rightarrow> failover \<times> s_action list" where
  "fo_stop s = (s\<lparr> fo_index := 0, fo_active := - 1 \<rparr>, map ClientDisconnect [0..<fo_pools s] @ [OnPause])"

definition fo_tick :: "u64 \<Rightarrow> failover \<Rightarrow> s_action list" where
  "fo_tick now s = map (\<lambda>i. ClientTick i now) [0..<fo_pools s]"

definition fo_onClose :: "nat \<Rightarrow> int \<Rightarrow> failover \<Rightarrow> failover \<times> s_action list" where
  "fo_onClose client failures s =
     (if failures = - 1 then (s, [])
      else let (s, out) = (if fo_active s = int client then (s\<lparr> fo_active := - 1 \<rparr>, [OnPause]) else (s, []))
      in if fo_index s = 0 \<and> failures < fo_retries s then (s, out)
         else if fo_index s = client \<and> fo_pools s - fo_index s > 1
         then let s = s\<lparr> fo_index := fo_index s + 1 \<rparr> in (s, out @ [ClientConnect (fo_index s)])
         else (s, out))"

definition fo_onJobReceived :: "nat \<Rightarrow> failover \<Rightarrow> s_action list" where
  "fo_onJobReceived client s = (if fo_active s = int client then [OnJob client] else [])"

definition fo_onLoginSuccess :: "nat \<Rightarrow> failover \<Rightarrow> failover \<times> s_action list" where
  "fo_onLoginSuccess client s =
     (let active = (if client = 0 \<or> \<not> fo_isActive s then int client else fo_active s);
          out = map ClientDisconnect (filter (\<lambda>i. active \<noteq> int i) [1..<fo_pools s])
      in if 0 \<le> active \<and> active \<noteq> fo_active s
         then (s\<lparr> fo_active := active, fo_index := nat active \<rparr>, out @ [OnActive client]) else (s, out))"

text \<open>The calls that a strategy gets from its owner and from its clients.\<close>

datatype s_event = Submit | Connect | Resume | SetAlgo algo_id | SetProxy "string option" | Stop | STick u64
  | Close nat int | Login nat | LoginSuccess nat | JobReceived nat | ResultAccepted nat | VerifyAlgorithm nat

fun fo_step :: "s_event \<Rightarrow> failover \<Rightarrow> failover \<times> s_action list" where
  "fo_step Submit s = (s, fo_submit s)"
| "fo_step Connect s = (s, fo_connect s)"
| "fo_step Resume s = (s, fo_resume s)"
| "fo_step (SetAlgo algo) s = (s, fo_setAlgo algo s)"
| "fo_step (SetProxy proxy) s = (s, fo_setProxy proxy s)"
| "fo_step Stop s = fo_stop s"
| "fo_step (STick now) s = (s, fo_tick now s)"
| "fo_step (Close client failures) s = fo_onClose client failures s"
| "fo_step (Login client) s = (s, [OnLogin client])"
| "fo_step (LoginSuccess client) s = fo_onLoginSuccess client s"
| "fo_step (JobReceived client) s = (s, fo_onJobReceived client s)"
| "fo_step (ResultAccepted client) s = (s, [OnResult client])"
| "fo_step (VerifyAlgorithm client) s = (s, [OnVerify client])"

section \<open>A single pool\<close>

record single =
  sp_active :: bool

definition single_new :: single where
  "single_new = \<lparr> sp_active = False \<rparr>"

definition sp_resume :: "single \<Rightarrow> s_action list" where
  "sp_resume s = (if \<not> sp_active s then [] else [OnJob 0])"

definition sp_onClose :: "single \<Rightarrow> single \<times> s_action list" where
  "sp_onClose s = (if \<not> sp_active s then (s, []) else (s\<lparr> sp_active := False \<rparr>, [OnPause]))"

definition sp_onLoginSuccess :: "nat \<Rightarrow> single \<Rightarrow> single \<times> s_action list" where
  "sp_onLoginSuccess client s = (s\<lparr> sp_active := True \<rparr>, [OnActive client])"

fun sp_step :: "s_event \<Rightarrow> single \<Rightarrow> single \<times> s_action list" where
  "sp_step Submit s = (s, [ClientSubmit 0])"
| "sp_step Connect s = (s, [ClientConnect 0])"
| "sp_step Resume s = (s, sp_resume s)"
| "sp_step (SetAlgo algo) s = (s, [ClientSetAlgo 0 algo])"
| "sp_step (SetProxy proxy) s = (s, [ClientSetProxy 0 proxy])"
| "sp_step Stop s = (s, [ClientDisconnect 0])"
| "sp_step (STick now) s = (s, [ClientTick 0 now])"
| "sp_step (Close client failures) s = sp_onClose s"
| "sp_step (Login client) s = (s, [OnLogin client])"
| "sp_step (LoginSuccess client) s = sp_onLoginSuccess client s"
| "sp_step (JobReceived client) s = (s, [OnJob client])"
| "sp_step (ResultAccepted client) s = (s, [OnResult client])"
| "sp_step (VerifyAlgorithm client) s = (s, [OnVerify client])"

section \<open>What the listener relies on\<close>

text \<open>Whether the strategy is active, as the listener concludes it from the calls it gets.\<close>

fun listen :: "bool \<Rightarrow> s_action list \<Rightarrow> bool" where
  "listen b [] = b"
| "listen b (OnActive _ # out) = listen True out"
| "listen b (OnPause # out) = listen False out"
| "listen b (_ # out) = listen b out"

lemma listen_append [simp]: "listen b (xs @ ys) = listen (listen b xs) ys"
  by (induction b xs rule: listen.induct) simp_all

lemma listen_map [simp]:
  "listen b (map ClientDisconnect is) = b" "listen b (map (\<lambda>i. ClientTick i now) is) = b"
  "listen b (map (\<lambda>i. ClientSetAlgo i algo) is) = b" "listen b (map (\<lambda>i. ClientSetProxy i proxy) is) = b"
  by (induction "is") simp_all

text \<open>A sequence of operations with all its outputs.\<close>

fun s_run :: "('e \<Rightarrow> 's \<Rightarrow> 's \<times> 'a list) \<Rightarrow> 'e list \<Rightarrow> 's \<Rightarrow> 's \<times> 'a list" where
  "s_run f [] s = (s, [])"
| "s_run f (e # es) s = (case f e s of (s, out) \<Rightarrow> case s_run f es s of (s, out') \<Rightarrow> (s, out @ out'))"

locale strategy_protocol =
  fixes st_step :: "s_event \<Rightarrow> 's \<Rightarrow> 's \<times> s_action list" and st_active :: "'s \<Rightarrow> bool"
  assumes step_listen: "listen (st_active s) (snd (st_step e s)) = st_active (fst (st_step e s))"
begin

lemma run_listen: "listen (st_active s) (snd (s_run st_step es s)) = st_active (fst (s_run st_step es s))"
proof (induction es arbitrary: s)
  case (Cons e es)
  show ?case using step_listen [of s e] Cons.IH [of "fst (st_step e s)"] by (simp add: split_beta)
qed simp

end

lemma fo_onClose_listen:
  "listen (fo_isActive s) (snd (fo_onClose client failures s)) = fo_isActive (fst (fo_onClose client failures s))"
  by (simp add: fo_onClose_def fo_isActive_def Let_def)

lemma fo_onLoginSuccess_listen:
  "listen (fo_isActive s) (snd (fo_onLoginSuccess client s)) = fo_isActive (fst (fo_onLoginSuccess client s))"
  unfolding fo_onLoginSuccess_def Let_def fo_isActive_def by (simp split: if_split)

interpretation fo: strategy_protocol fo_step fo_isActive
proof
  show "listen (fo_isActive s) (snd (fo_step e s)) = fo_isActive (fst (fo_step e s))" for e s
    by (cases e) (simp_all add: fo_submit_def fo_connect_def fo_resume_def fo_setAlgo_def fo_setProxy_def fo_stop_def
      fo_tick_def fo_onJobReceived_def fo_onClose_listen fo_onLoginSuccess_listen, simp add: fo_isActive_def)
qed

interpretation sp: strategy_protocol sp_step sp_active
proof
  show "listen (sp_active s) (snd (sp_step e s)) = sp_active (fst (sp_step e s))" for e s
    by (cases e) (simp_all add: sp_resume_def sp_onClose_def sp_onLoginSuccess_def)
qed

section \<open>The failover strategy as a choice of a pool\<close>

text \<open>What the strategy promises: there is at most one active pool. A pool that logs in becomes active
  when there is none or when it is the first pool; the active pool stops being active when its
  connection is lost, and stopping leaves none. The listener hears of exactly these changes, and of
  every stop.\<close>

fun choose_step :: "s_event \<Rightarrow> nat option \<Rightarrow> nat option \<times> s_action list" where
  "choose_step Stop a = (None, [OnPause])"
| "choose_step (Close client failures) a =
     (if failures \<noteq> - 1 \<and> a = Some client then (None, [OnPause]) else (a, []))"
| "choose_step (LoginSuccess client) a =
     (if (client = 0 \<or> a = None) \<and> a \<noteq> Some client then (Some client, [OnActive client]) else (a, []))"
| "choose_step _ a = (a, [])"

definition fo_abs :: "failover \<Rightarrow> nat option" where
  "fo_abs s = (if fo_isActive s then Some (nat (fo_active s)) else None)"

definition changes :: "s_action list \<Rightarrow> s_action list" where
  "changes out = filter (\<lambda>a. a = OnPause \<or> (\<exists>c. a = OnActive c)) out"

lemma changes_simps [simp]:
  "changes [] = []" "changes (xs @ ys) = changes xs @ changes ys"
  "changes (map ClientDisconnect is) = []" "changes (map (\<lambda>i. ClientTick i now) is) = []"
  "changes (map (\<lambda>i. ClientSetAlgo i algo) is) = []" "changes (map (\<lambda>i. ClientSetProxy i proxy) is) = []"
  "changes (OnPause # xs) = OnPause # changes xs" "changes (OnActive c # xs) = OnActive c # changes xs"
  "changes (ClientConnect i # xs) = changes xs" "changes (ClientSubmit i # xs) = changes xs"
  "changes (OnJob i # xs) = changes xs" "changes (OnLogin i # xs) = changes xs"
  "changes (OnResult i # xs) = changes xs" "changes (OnVerify i # xs) = changes xs"
  by (auto simp: changes_def filter_empty_conv)

lemma fo_onClose_choose:
  "choose_step (Close client failures) (fo_abs s)
    = (fo_abs (fst (fo_onClose client failures s)), changes (snd (fo_onClose client failures s)))"
  by (auto simp: fo_onClose_def fo_abs_def fo_isActive_def Let_def)

lemma fo_onLoginSuccess_choose:
  "choose_step (LoginSuccess client) (fo_abs s)
    = (fo_abs (fst (fo_onLoginSuccess client s)), changes (snd (fo_onLoginSuccess client s)))"
proof (cases "fo_isActive s")
  case True
  then have "fo_active s = int client \<longleftrightarrow> nat (fo_active s) = client" by (auto simp: fo_isActive_def)
  with True show ?thesis by (auto simp: fo_onLoginSuccess_def fo_abs_def fo_isActive_def Let_def)
next
  case False
  then show ?thesis by (auto simp: fo_onLoginSuccess_def fo_abs_def fo_isActive_def Let_def)
qed

lemma fo_step_choose: "choose_step e (fo_abs s) = (fo_abs (fst (fo_step e s)), changes (snd (fo_step e s)))"
  by (cases e) (simp_all only: fo_onClose_choose fo_onLoginSuccess_choose fo_step.simps,
    simp_all add: fo_submit_def fo_connect_def fo_resume_def fo_setAlgo_def fo_setProxy_def fo_stop_def fo_tick_def
      fo_onJobReceived_def, simp_all add: fo_abs_def fo_isActive_def)

lemma fo_run_choose:
  "s_run choose_step es (fo_abs s) = (fo_abs (fst (s_run fo_step es s)), changes (snd (s_run fo_step es s)))"
proof (induction es arbitrary: s)
  case (Cons e es)
  show ?case using fo_step_choose [of e s] Cons.IH [of "fst (fo_step e s)"] by (simp add: split_beta)
qed simp

text \<open>C11. The failover strategy implements the choice of a pool: for every sequence of calls from its
  owner and its clients, the active pool and the calls of the listener are those of the
  specification \<open>choose_step\<close>.\<close>

theorem failover_refines_choice:
  "s_run choose_step es None = (fo_abs (fst (s_run fo_step es (failover_new n retries))),
    changes (snd (s_run fo_step es (failover_new n retries))))"
  using fo_run_choose [of es "failover_new n retries"] by (simp add: fo_abs_def fo_isActive_def failover_new_def)

section \<open>Progress\<close>

text \<open>The pools that an operation names exist.\<close>

fun s_clients :: "s_event \<Rightarrow> nat set" where
  "s_clients (Close client _) = {client}"
| "s_clients (LoginSuccess client) = {client}"
| "s_clients _ = {}"

definition fo_inv :: "failover \<Rightarrow> bool" where
  "fo_inv s \<longleftrightarrow> fo_index s < fo_pools s \<and> (fo_isActive s \<longrightarrow> nat (fo_active s) = fo_index s)"

lemma fo_step_inv:
  assumes "fo_inv s" and "s_clients e \<subseteq> {..< fo_pools s}"
  shows "fo_inv (fst (fo_step e s)) \<and> fo_pools (fst (fo_step e s)) = fo_pools s"
proof (cases e)
  case (Close client failures)
  then show ?thesis using assms by (auto simp: fo_onClose_def fo_inv_def fo_isActive_def Let_def)
next
  case (LoginSuccess client)
  then show ?thesis using assms by (auto simp: fo_onLoginSuccess_def fo_inv_def fo_isActive_def Let_def)
next
  case Stop
  then show ?thesis using assms by (auto simp: fo_stop_def fo_inv_def fo_isActive_def)
qed (use assms in auto)

lemma fo_run_inv:
  "fo_inv s \<Longrightarrow> (\<Union>e\<in>set es. s_clients e) \<subseteq> {..< fo_pools s} \<Longrightarrow>
    fo_inv (fst (s_run fo_step es s)) \<and> fo_pools (fst (s_run fo_step es s)) = fo_pools s"
proof (induction es arbitrary: s)
  case (Cons e es)
  then show ?case using fo_step_inv [of s e] Cons.IH [of "fst (fo_step e s)"] by (auto simp: split_beta)
qed simp

text \<open>C25. The strategy never indexes outside its pools: with at least one pool, after any sequence of
  calls with existing clients the index of the pool in turn and the client it reports are valid, and
  the active pool is the one in turn.\<close>

theorem failover_index_valid:
  assumes "0 < n" and "(\<Union>e\<in>set es. s_clients e) \<subseteq> {..<n}" and "s = fst (s_run fo_step es (failover_new n retries))"
  shows "fo_index s < n \<and> fo_client s < n \<and> (fo_isActive s \<longrightarrow> nat (fo_active s) = fo_index s)"
proof -
  have "fo_inv (failover_new n retries)" "fo_pools (failover_new n retries) = n"
    using assms(1) by (auto simp: fo_inv_def failover_new_def fo_isActive_def)
  then have "fo_inv s \<and> fo_pools s = n" using fo_run_inv assms(2,3) by metis
  then show ?thesis by (auto simp: fo_inv_def fo_client_def)
qed

theorem failover_index_valid_witness:
  "fo_client (fst (s_run fo_step [Connect, Close 0 5, LoginSuccess 1, Close 1 1] (failover_new 2 5))) < 2"
  using failover_index_valid [of 2 "[Connect, Close 0 5, LoginSuccess 1, Close 1 1]" _ 5, OF _ _ refl] by simp

lemma s_run_append: "s_run f (xs @ ys) s =
    (fst (s_run f ys (fst (s_run f xs s))), snd (s_run f xs s) @ snd (s_run f ys (fst (s_run f xs s))))"
  by (induction xs arbitrary: s) (simp_all add: split_beta)

lemma fo_closes:
  assumes "\<And>i. 0 \<le> f i" and "retries \<le> f 0"
  shows "k < n \<Longrightarrow> s_run fo_step (map (\<lambda>i. Close i (f i)) [0..<k]) (failover_new n retries)
    = ((failover_new n retries)\<lparr> fo_index := k \<rparr>, map ClientConnect [1..<Suc k])"
proof (induction k)
  case (Suc k)
  have "f k \<noteq> - 1" using assms(1) [of k] by linarith
  then have "fo_onClose k (f k) ((failover_new n retries)\<lparr> fo_index := k \<rparr>)
      = ((failover_new n retries)\<lparr> fo_index := Suc k \<rparr>, [ClientConnect (Suc k)])"
    using Suc.prems assms(2) by (auto simp: fo_onClose_def failover_new_def)
  with Suc show ?case by (simp add: s_run_append)
qed (simp add: failover_new_def)

text \<open>C12. Failing over makes progress: after \<open>connect\<close>, when the connections to the first \<open>k\<close> pools fail one
  after another (the first pool as often as the retries say), exactly the pools 0 to \<open>k\<close> are
  connected, in this order, and when pool \<open>k\<close> accepts the login, it becomes the active
  pool, the reserves other than it are disconnected and the listener is told.\<close>

theorem failover_reaches_pool:
  assumes "\<And>i. 0 \<le> f i" and "retries \<le> f 0" and "k < n"
  shows "s_run fo_step (Connect # map (\<lambda>i. Close i (f i)) [0..<k] @ [LoginSuccess k]) (failover_new n retries)
    = ((failover_new n retries)\<lparr> fo_active := int k, fo_index := k \<rparr>,
       map ClientConnect [0..<Suc k] @ map ClientDisconnect (filter (\<lambda>i. k \<noteq> i) [1..<n]) @ [OnActive k])"
proof -
  have "fo_onLoginSuccess k ((failover_new n retries)\<lparr> fo_index := k \<rparr>)
      = ((failover_new n retries)\<lparr> fo_active := int k, fo_index := k \<rparr>,
         map ClientDisconnect (filter (\<lambda>i. k \<noteq> i) [1..<n]) @ [OnActive k])"
    by (simp add: fo_onLoginSuccess_def failover_new_def fo_isActive_def Let_def)
  moreover have "ClientConnect 0 # map ClientConnect [1..<Suc k] = map ClientConnect [0..<Suc k]"
    by (simp add: upt_conv_Cons del: upt_Suc)
  ultimately show ?thesis
    using fo_closes [of f retries k n, OF assms] by (simp add: s_run_append fo_connect_def failover_new_def del: upt_Suc)
qed

theorem failover_reaches_pool_witness:
  "fo_abs (fst (s_run fo_step [Connect, Close 0 2, Close 1 1, LoginSuccess 2] (failover_new 3 2))) = Some 2"
proof -
  have "(Connect # map (\<lambda>i. Close i (if i = 0 then 2 else 1)) [0..<2] @ [LoginSuccess 2])
      = [Connect, Close 0 2, Close 1 1, LoginSuccess 2]" by (simp add: upt_rec)
  then show ?thesis
    using failover_reaches_pool [of "\<lambda>i. if i = 0 then 2 else 1" 2 2 3]
    by (simp add: fo_abs_def fo_isActive_def del: s_run.simps)
qed

text \<open>C32. The listener is never misled: after any calls of a failover strategy or of a strategy with a
  single pool, the strategy is active exactly when the last of \<open>onActive\<close> and \<open>onPause\<close> that the listener has got
  was \<open>onActive\<close>.\<close>

theorem strategies_inform_listener:
  "listen False (snd (s_run fo_step es (failover_new n retries))) = fo_isActive (fst (s_run fo_step es (failover_new n retries)))
    \<and> listen False (snd (s_run sp_step es single_new)) = sp_active (fst (s_run sp_step es single_new))"
  using fo.run_listen [of "failover_new n retries" es] sp.run_listen [of single_new es]
  by (simp add: failover_new_def single_new_def fo_isActive_def)

end
