(* ===== verification/FeeTable_Correct.thy ===== *)
theory FeeTable_Correct
  imports FeeTable
begin

text \<open>
  What the fee table promises. A run is any sequence of calls of its operations, with any answers of
  the server. The table always has a usable route for both targets, its routes change only through a
  file that the operator's key signed and whose sequence number is larger than that of the file in
  use, and requests are spaced. The locale \<open>route_source\<close> is what the fee strategy relies on;
  it is interpreted here for the table.
\<close>

section \<open>Valid routes\<close>

definition route_ok :: "FeeRoute \<Rightarrow> bool" where
  "route_ok r \<longleftrightarrow> hostOk (r_host r) \<and> r_port r \<noteq> 0 \<and> isValid (r_algo r)
     \<and> \<not> (r_target r = CPU \<and> family (r_algo r) = FAM_KAWPOW)
     \<and> textOk (r_user r) 200 \<and> textOk (r_pass r) 64 \<and> textOk (r_label r) 120
     \<and> r_mode r \<in> {MODE_POOL, MODE_AUTO_ETH, MODE_EPIC}"

lemma hostOk_nonempty: "hostOk h \<Longrightarrow> h \<noteq> []"
  by (auto simp: hostOk_def)

lemma route_ok_usable [simp]: "route_ok r \<Longrightarrow> usable r"
  by (auto simp: route_ok_def usable_def dest: hostOk_nonempty)

lemma get_uint_nonneg: "get_uint x = Some p \<Longrightarrow> 0 \<le> p"
  by (cases x rule: get_uint.cases) (auto split: if_split_asm)

lemma port_nonzero: "0 \<le> p \<Longrightarrow> p \<noteq> 0 \<Longrightarrow> \<not> 65535 < p \<Longrightarrow> (word_of_int p :: u16) \<noteq> 0"
proof -
  assume *: "0 \<le> p" "p \<noteq> 0" "\<not> 65535 < p"
  then have "uint (word_of_int p :: u16) = p" by (simp add: uint_word_of_int)
  with *(2) show ?thesis by auto
qed

lemma parse_mode_range: "parse_mode m = Some k \<Longrightarrow> k \<in> {MODE_POOL, MODE_AUTO_ETH, MODE_EPIC}"
  by (auto simp: parse_mode_def split: if_split_asm)

lemma textOk_default: "textOk ''x'' 64"
  by (simp add: textOk_def)

lemma parseRoute_ok:
  assumes "parseRoute v = Some r"
  shows "route_ok r"
proof -
  obtain t m a host user label port tls pass where r:
    "r = \<lparr> r_target = t, r_mode = m, r_algo = a, r_host = host, r_port = word_of_int port, r_tls = tls,
        r_user = user, r_pass = pass, r_label = label \<rparr>"
    "m \<in> {MODE_POOL, MODE_AUTO_ETH, MODE_EPIC}" "isValid a" "\<not> (t = CPU \<and> family a = FAM_KAWPOW)"
    "0 \<le> port" "port \<noteq> 0" "\<not> 65535 < port" "hostOk host" "textOk user 200" "textOk label 120" "textOk pass 64"
    using assms textOk_default unfolding parseRoute_def Let_def prod.case
    by (auto dest!: parse_mode_range get_uint_nonneg split: option.split_asm if_split_asm)
  then show ?thesis using port_nonzero by (simp add: route_ok_def)
qed

lemma parse_routes_ok: "parse_routes vs = Some rs \<Longrightarrow> list_all route_ok rs \<and> length rs = length vs"
  by (induction vs arbitrary: rs) (auto dest: parseRoute_ok split: option.splits)

lemma parse_routes_map: "parse_routes vs = Some rs \<Longrightarrow> map parseRoute vs = map Some rs"
  by (induction vs arbitrary: rs) (auto split: option.splits)

lemma builtin_texts:
  "hostOk ''xmr-eu1.nanopool.org''" "hostOk ''xmr-eu2.nanopool.org''" "hostOk ''xmr-us-east1.nanopool.org''"
  "hostOk ''rvn-eu1.nanopool.org''" "hostOk ''rvn-eu2.nanopool.org''" "hostOk ''rvn-us-east1.nanopool.org''"
  "textOk xmr_login 200" "textOk rvn_login 200" "textOk xmr_label 120" "textOk rvn_label 120"
  by code_simp+

lemma builtin_algos: "isValid RX_0" "family RX_0 \<noteq> FAM_KAWPOW" "isValid KAWPOW_RVN"
  by (simp_all add: isValid_def family_def isCN_def algo_id_defs family_defs)

lemma builtin_ok: "list_all route_ok builtin"
  by (simp add: builtin_def route_def route_ok_def builtin_texts builtin_algos textOk_default)

lemma builtin_targets: "list_ex (\<lambda>r. r_target r = t) builtin"
  by (cases t) (simp_all add: builtin_def route_def)

lemma builtin_nonempty [simp]: "builtin \<noteq> []"
  by (simp add: builtin_def)

section \<open>The merged table\<close>

text \<open>The routes of one target.\<close>

abbreviation of_target :: "FeeTarget \<Rightarrow> FeeRoute list \<Rightarrow> FeeRoute list" where
  "of_target t \<equiv> filter (\<lambda>r. r_target r = t)"

lemma list_ex_of_target: "list_ex (\<lambda>r. r_target r = t) rs \<longleftrightarrow> of_target t rs \<noteq> []"
  by (induction rs) auto

lemma merge_of_target:
  "of_target t (merge_routes remote) = (if of_target t remote = [] then of_target t builtin else of_target t remote)"
  unfolding merge_routes_def Let_def list_ex_of_target
  by (cases t) (auto simp: filter_empty_conv intro!: filter_cong)

lemma merge_routes_set: "set remote \<subseteq> set (merge_routes remote)" "set (merge_routes remote) \<subseteq> set remote \<union> set builtin"
  by (auto simp: merge_routes_def Let_def)

lemma merge_routes_ok: "list_all route_ok remote \<Longrightarrow> list_all route_ok (merge_routes remote)"
  using builtin_ok by (auto simp: merge_routes_def Let_def list_all_iff)

lemma merge_targets: "of_target t (merge_routes remote) \<noteq> []"
  using builtin_targets [of t] unfolding list_ex_of_target by (simp add: merge_of_target)

lemma merge_nonempty [simp]: "merge_routes remote \<noteq> []"
  using merge_targets [of CPU remote] by auto

section \<open>The state\<close>

definition fee_table_ok :: "FeeRoute list \<Rightarrow> bool" where
  "fee_table_ok rs \<longleftrightarrow> list_all route_ok rs \<and> of_target CPU rs \<noteq> [] \<and> of_target GPU rs \<noteq> []"

definition fee_inv :: "fee_state \<Rightarrow> bool" where
  "fee_inv s \<longleftrightarrow> fee_table_ok (f_current (fee_get s))"

lemma fee_table_builtin: "fee_table_ok builtin"
  using builtin_ok builtin_targets by (simp add: fee_table_ok_def list_ex_of_target)

lemma fee_table_merge: "list_all route_ok remote \<Longrightarrow> fee_table_ok (merge_routes remote)"
  by (simp add: fee_table_ok_def merge_routes_ok merge_targets)

lemma fee_get_current [simp]: "f_current (fee_get s) \<noteq> []"
  by (simp add: fee_get_def)

lemma fee_get_id: "f_current s \<noteq> [] \<Longrightarrow> fee_get s = s"
  by (simp add: fee_get_def)

lemma fee_get_fields [simp]:
  "f_gpu (fee_get s) = f_gpu s" "f_version (fee_get s) = f_version s" "f_source (fee_get s) = f_source s"
  "f_sequence (fee_get s) = f_sequence s" "f_started (fee_get s) = f_started s"
  "f_busy (fee_get s) = f_busy s" "f_next (fee_get s) = f_next s"
  by (simp_all add: fee_get_def)

lemma routes_all:
  assumes "fee_table_ok (f_current (fee_get s))"
  shows "routes t s = of_target t (f_current (fee_get s))"
proof -
  have "\<forall>r\<in>set (f_current (fee_get s)). usable r"
    using assms by (auto simp: fee_table_ok_def list_all_iff)
  then show ?thesis unfolding routes_def by (intro filter_cong) auto
qed

text \<open>The answer of the server carries the document \<open>doc\<close>: the body is a JSON object whose member
  \<open>data\<close> decodes to the text of \<open>doc\<close> and whose member \<open>sig\<close> decodes to a signature of this text that is
  valid under the built-in key.\<close>

definition fee_signed ::
  "(string \<Rightarrow> json option) \<Rightarrow> (bytes \<Rightarrow> string \<Rightarrow> string \<Rightarrow> bool) \<Rightarrow> string \<Rightarrow> json \<Rightarrow> bool" where
  "fee_signed json_parse ed25519_verify body doc \<longleftrightarrow>
     (\<exists>envelope data sig payload signature pub. json_parse (c_str body) = Some envelope
        \<and> get_string (member ''data'' envelope) = Some data \<and> get_string (member ''sig'' envelope) = Some sig
        \<and> base64Decode data = Some payload \<and> base64Decode sig = Some signature
        \<and> hexValue fee_pubkey_hex 32 = Some pub \<and> length signature = 64 \<and> ed25519_verify pub signature payload
        \<and> json_parse (c_str payload) = Some doc)"

lemma fee_signed_unique:
  "fee_signed json_parse ed25519_verify body doc \<Longrightarrow> fee_signed json_parse ed25519_verify body doc' \<Longrightarrow> doc = doc'"
  by (auto simp: fee_signed_def)

lemma apply_file_signed:
  assumes "apply_file json_parse ed25519_verify now body s = Inr s'"
  obtains doc payload where "fee_signed json_parse ed25519_verify body doc" "json_parse (c_str payload) = Some doc"
    "apply_payload json_parse now payload (fee_get s) = Inr s'"
proof -
  obtain envelope data sig payload signature pub where *: "json_parse (c_str body) = Some envelope"
    "get_string (member ''data'' envelope) = Some data" "get_string (member ''sig'' envelope) = Some sig"
    "base64Decode data = Some payload" "base64Decode sig = Some signature" "hexValue fee_pubkey_hex 32 = Some pub"
    "length signature = 64" "ed25519_verify pub signature payload"
    and p: "apply_payload json_parse now payload (fee_get s) = Inr s'"
    using assms unfolding apply_file_def verifySignature_def Let_def prod.case
    by (auto split: option.split_asm if_split_asm)
  obtain doc where "json_parse (c_str payload) = Some doc"
    using p unfolding apply_payload_def by (auto split: option.split_asm)
  with * p show thesis by (intro that) (auto simp: fee_signed_def)
qed

lemma apply_payload_Inr:
  assumes "apply_payload json_parse now payload s = Inr s'"
  obtains doc remote list expires sequence where "json_parse (c_str payload) = Some doc"
    "get_uint64 (member ''seq'' doc) = Some sequence" "f_sequence s < sequence"
    "get_uint64 (member ''expires'' doc) = Some expires" "now < expires" "expires \<le> now + kMaxValidity"
    "get_array (member ''routes'' doc) = Some list" "0 < length list" "length list \<le> kMaxRoutes"
    "parse_routes list = Some remote"
    "s' = s\<lparr> f_current := merge_routes remote, f_sequence := sequence,
        f_source := ''updated by the operator, sequence '' @ digits10 (unat sequence),
        f_version := f_version s + 1 \<rparr>"
  using assms unfolding apply_payload_def prod.case
  by (auto simp: not_le not_less split: option.split_asm if_split_asm)

text \<open>What an accepted file decides.\<close>

lemma apply_file_accepted:
  assumes "apply_file json_parse ed25519_verify now body s = Inr s'"
  obtains doc vs remote sequence expires where "fee_signed json_parse ed25519_verify body doc"
    "get_uint64 (member ''seq'' doc) = Some sequence" "f_sequence s < sequence" "f_sequence s' = sequence"
    "get_uint64 (member ''expires'' doc) = Some expires" "now < expires" "expires \<le> now + kMaxValidity"
    "get_array (member ''routes'' doc) = Some vs" "parse_routes vs = Some remote" "f_current s' = merge_routes remote"
proof -
  obtain doc payload where d: "fee_signed json_parse ed25519_verify body doc" "json_parse (c_str payload) = Some doc"
    and p: "apply_payload json_parse now payload (fee_get s) = Inr s'"
    using assms by (rule apply_file_signed)
  from p show thesis by (rule apply_payload_Inr) (use d that in simp)
qed

lemma apply_file_table:
  assumes "apply_file json_parse ed25519_verify now body s = Inr s'"
  shows "fee_table_ok (f_current s')" and "f_sequence s < f_sequence s'" and "f_version s' = f_version s + 1"
    and "f_gpu s' = f_gpu s" and "f_started s' = f_started s" and "f_busy s' = f_busy s"
proof -
  obtain doc payload where *: "apply_payload json_parse now payload (fee_get s) = Inr s'"
    using assms by (rule apply_file_signed)
  obtain remote list sequence src where "parse_routes list = Some remote" "f_sequence s < sequence"
    "s' = (fee_get s)\<lparr> f_current := merge_routes remote, f_sequence := sequence, f_source := src,
        f_version := f_version s + 1 \<rparr>"
    using * by (rule apply_payload_Inr) simp
  moreover from this have "list_all route_ok remote" using parse_routes_ok by blast
  ultimately show "fee_table_ok (f_current s')" "f_sequence s < f_sequence s'" "f_version s' = f_version s + 1"
    "f_gpu s' = f_gpu s" "f_started s' = f_started s" "f_busy s' = f_busy s"
    by (simp_all add: fee_table_merge)
qed

text \<open>Whether a file is accepted does not depend on the busy flag.\<close>

lemma apply_payload_busy:
  "apply_payload json_parse now payload (s\<lparr> f_busy := b \<rparr>)
    = map_sum id (\<lambda>t. t\<lparr> f_busy := b \<rparr>) (apply_payload json_parse now payload s)"
  unfolding apply_payload_def by (simp split: option.split)

lemma apply_file_busy:
  assumes "fee_get s = s"
  shows "(case apply_file json_parse ed25519_verify now body (s\<lparr> f_busy := b \<rparr>) of Inr _ \<Rightarrow> True | Inl why \<Rightarrow> why = NotNewer)
    = (case apply_file json_parse ed25519_verify now body s of Inr _ \<Rightarrow> True | Inl why \<Rightarrow> why = NotNewer)"
proof -
  have g: "fee_get (s\<lparr> f_busy := b \<rparr>) = s\<lparr> f_busy := b \<rparr>"
    using assms fee_get_current [of s] by (intro fee_get_id) simp
  have "(case map_sum id f x of Inr _ \<Rightarrow> True | Inl why \<Rightarrow> why = NotNewer)
      = (case x of Inr _ \<Rightarrow> True | Inl why \<Rightarrow> why = NotNewer)" for f :: "fee_state \<Rightarrow> fee_state" and x
    by (cases x) simp_all
  then show ?thesis
    unfolding apply_file_def Let_def g assms apply_payload_busy by (simp split: option.split)
qed

section \<open>Runs\<close>

text \<open>The operations in the order in which the program calls them: the configuration is read, the
  updates are started, the timer ticks, an answer arrives. \<open>fee_reach\<close> are the states that a run
  from \<open>s\<close> reaches.\<close>

datatype fee_event = SetGpu bool | Start "string option" u64 | Tick u64 | Answer u64 u64 int string

fun fee_step ::
  "(string \<Rightarrow> json option) \<Rightarrow> (bytes \<Rightarrow> string \<Rightarrow> string \<Rightarrow> bool) \<Rightarrow> fee_event \<Rightarrow> fee_state \<Rightarrow> fee_state" where
  "fee_step json_parse ed25519_verify (SetGpu gpu) s = setGpu gpu s"
| "fee_step json_parse ed25519_verify (Start off steady) s = fee_start off steady s"
| "fee_step json_parse ed25519_verify (Tick now) s = fst (fee_tick now s)"
| "fee_step json_parse ed25519_verify (Answer now steady status body) s =
     onHttpData json_parse ed25519_verify now steady status body s"

inductive fee_reach ::
  "(string \<Rightarrow> json option) \<Rightarrow> (bytes \<Rightarrow> string \<Rightarrow> string \<Rightarrow> bool) \<Rightarrow> fee_state \<Rightarrow> fee_state \<Rightarrow> bool"
  for json_parse ed25519_verify s where
  fee_refl: "fee_reach json_parse ed25519_verify s s"
| fee_next: "fee_reach json_parse ed25519_verify s t \<Longrightarrow>
    fee_reach json_parse ed25519_verify s (fee_step json_parse ed25519_verify e t)"

text \<open>An operation leaves the table alone, or it accepts a file.\<close>

definition same_table :: "fee_state \<Rightarrow> fee_state \<Rightarrow> bool" where
  "same_table s s' \<longleftrightarrow> fee_get s' = s' \<and> f_current s' = f_current (fee_get s) \<and> f_sequence s' = f_sequence s
     \<and> f_version s' = f_version s \<and> f_source s' = f_source s"

lemma fee_step_cases:
  obtains (same) "same_table s (fee_step json_parse ed25519_verify e s)"
  | (accepted) now steady body s1 where "e = Answer now steady 200 body"
      "apply_file json_parse ed25519_verify now body ((fee_get s)\<lparr> f_busy := False \<rparr>) = Inr s1"
      "fee_step json_parse ed25519_verify e s = s1\<lparr> f_next := steady + kRefreshInterval \<rparr>"
proof (cases e)
  case (Answer now steady status body)
  let ?s = "(fee_get s)\<lparr> f_busy := False \<rparr>"
  show ?thesis
  proof (cases "status = 200 \<and> (\<exists>s1. apply_file json_parse ed25519_verify now body ?s = Inr s1)")
    case True
    then show ?thesis using Answer by (auto simp: onHttpData_def Let_def intro: accepted)
  next
    case False
    then have "same_table s (fee_step json_parse ed25519_verify e s)"
      using Answer by (auto simp: onHttpData_def Let_def same_table_def fee_get_id split: sum.split)
    then show ?thesis by (rule same)
  qed
qed (auto intro!: same simp: same_table_def setGpu_def fee_start_def fee_tick_def fee_get_id Let_def)

lemma fee_inv_step: "fee_inv s \<Longrightarrow> fee_inv (fee_step json_parse ed25519_verify e s)"
proof -
  assume *: "fee_inv s"
  show ?thesis
  proof (rule fee_step_cases [of s json_parse ed25519_verify e])
    assume "same_table s (fee_step json_parse ed25519_verify e s)"
    with * show ?thesis by (simp add: fee_inv_def same_table_def)
  next
    fix now steady body s1
    assume f: "apply_file json_parse ed25519_verify now body ((fee_get s)\<lparr> f_busy := False \<rparr>) = Inr s1"
      and e: "fee_step json_parse ed25519_verify e s = s1\<lparr> f_next := steady + kRefreshInterval \<rparr>"
    have "fee_table_ok (f_current s1)" using apply_file_table(1) [OF f] .
    then show ?thesis unfolding e fee_inv_def fee_get_def using fee_table_builtin by simp
  qed
qed

lemma fee_inv_init: "fee_inv fee_init"
  by (simp add: fee_inv_def fee_init_def fee_get_def fee_table_builtin)

lemma fee_inv_reach: "fee_reach json_parse ed25519_verify s t \<Longrightarrow> fee_inv s \<Longrightarrow> fee_inv t"
  by (induction rule: fee_reach.induct) (auto intro: fee_inv_step)

section \<open>The interface to the fee strategy\<close>

locale route_source =
  fixes inv :: "'s \<Rightarrow> bool" and source_routes :: "FeeTarget \<Rightarrow> 's \<Rightarrow> FeeRoute list"
    and source_target :: "'s \<Rightarrow> FeeTarget" and source_main :: "'s \<Rightarrow> FeeRoute option"
  assumes routes_nonempty: "inv s \<Longrightarrow> source_routes t s \<noteq> []"
    and routes_target: "r \<in> set (source_routes t s) \<Longrightarrow> r_target r = t"
    and routes_usable: "r \<in> set (source_routes t s) \<Longrightarrow> usable r"
    and main_first: "source_main s = (case source_routes (source_target s) s of [] \<Rightarrow> None | r # _ \<Rightarrow> Some r)"
begin

lemma main_exists: "inv s \<Longrightarrow> \<exists>r. source_main s = Some r \<and> r_target r = source_target s \<and> usable r"
  using routes_nonempty [of s "source_target s"] routes_target [of _ "source_target s" s]
    routes_usable [of _ "source_target s" s]
  by (cases "source_routes (source_target s) s") (auto simp: main_first)

end

interpretation fee: route_source fee_inv routes target mainRoute
proof
  show "routes t s \<noteq> []" if "fee_inv s" for s t
    using that routes_all [of s t] by (cases t) (auto simp: fee_inv_def fee_table_ok_def)
qed (auto simp: routes_def mainRoute_def)

section \<open>Properties\<close>

text \<open>C1. Whatever the server answers, there always is a route: in every reachable state the main
  route exists, belongs to the target that mines (GPU when a GPU backend is enabled, else CPU) and
  passes every check of a route.\<close>

theorem fee_main_route:
  assumes "fee_reach json_parse ed25519_verify fee_init s"
  shows "\<exists>r. mainRoute s = Some r \<and> r_target r = (if f_gpu s then GPU else CPU) \<and> route_ok r"
proof -
  have inv: "fee_inv s" using fee_inv_reach [OF assms fee_inv_init] .
  obtain r where r: "mainRoute s = Some r" "r_target r = target s"
    using fee.main_exists [OF inv] by blast
  have "r \<in> set (routes (target s) s)" using r(1) by (auto simp: mainRoute_def split: list.splits)
  then have "route_ok r" using inv by (auto simp: fee_inv_def fee_table_ok_def routes_def list_all_iff)
  with r show ?thesis by (simp add: target_def)
qed


text \<open>C3. No replay: along any run the sequence number never decreases, and as long as it is the same,
  so are the routes and their version; a file that was accepted once is never accepted again.\<close>

theorem fee_no_replay:
  assumes "fee_reach json_parse ed25519_verify s t"
  shows "f_sequence s < f_sequence t
    \<or> f_sequence t = f_sequence s \<and> f_version t = f_version s \<and> f_current (fee_get t) = f_current (fee_get s)"
  using assms
proof induction
  case (fee_next t e)
  show ?case
  proof (rule fee_step_cases [of t json_parse ed25519_verify e])
    assume "same_table t (fee_step json_parse ed25519_verify e t)"
    with fee_next.IH show ?thesis by (simp add: same_table_def)
  next
    fix now steady body s1
    assume "apply_file json_parse ed25519_verify now body ((fee_get t)\<lparr> f_busy := False \<rparr>) = Inr s1"
      and e: "fee_step json_parse ed25519_verify e t = s1\<lparr> f_next := steady + kRefreshInterval \<rparr>"
    then have "f_sequence t < f_sequence s1" using apply_file_table(2) by fastforce
    with fee_next.IH show ?thesis unfolding e by auto
  qed
qed simp

text \<open>Without a valid signature nothing changes: if no signature is ever valid under the key, the
  routes are the built-in ones in every reachable state.\<close>

theorem fee_builtin_without_signature:
  assumes "\<And>pub signature payload. \<not> ed25519_verify pub signature payload"
    and "fee_reach json_parse ed25519_verify fee_init s"
  shows "f_current (fee_get s) = builtin \<and> f_version s = 1"
  using assms(2)
proof induction
  case (fee_next t e)
  show ?case
  proof (rule fee_step_cases [of t json_parse ed25519_verify e])
    assume "same_table t (fee_step json_parse ed25519_verify e t)"
    with fee_next.IH show ?thesis by (simp add: same_table_def)
  next
    fix now steady body s1
    assume "apply_file json_parse ed25519_verify now body ((fee_get t)\<lparr> f_busy := False \<rparr>) = Inr s1"
    then show ?thesis by (rule apply_file_signed) (simp add: fee_signed_def assms(1))
  qed
qed (simp add: fee_init_def fee_get_def)

text \<open>C26. An accepted file decides the routes of the targets it mentions: the routes of such a target are
  exactly those of the signed document, in their order, so the first of them is the main route when this target
  mines.\<close>

theorem fee_update_targets:
  assumes "apply_file json_parse ed25519_verify now body s = Inr s'" and "fee_signed json_parse ed25519_verify body doc"
    and "get_array (member ''routes'' doc) = Some vs" and "map parseRoute vs = map Some remote"
    and "of_target t remote \<noteq> []"
  shows "routes t s' = of_target t remote \<and> mainRoute s' = (if target s' = t then Some (hd (of_target t remote))
    else mainRoute s')"
proof -
  obtain doc' vs' remote' where d: "fee_signed json_parse ed25519_verify body doc'"
    "get_array (member ''routes'' doc') = Some vs'" "parse_routes vs' = Some remote'"
    and c: "f_current s' = merge_routes remote'"
    using assms(1) by (rule apply_file_accepted) auto
  have "doc' = doc" using d(1) assms(2) by (rule fee_signed_unique)
  with d(2) assms(3) have "vs' = vs" by simp
  then have r: "remote' = remote" using parse_routes_map [OF d(3)] assms(4) by (simp add: inj_map_eq_map)
  have "fee_table_ok (merge_routes remote')" using parse_routes_ok [OF d(3)] by (simp add: fee_table_merge)
  then have "routes t s' = of_target t (merge_routes remote')"
    using routes_all [of s' t] by (simp add: c fee_get_id)
  then have "routes t s' = of_target t remote" using assms(5) by (simp add: r merge_of_target)
  then show ?thesis using assms(5) by (auto simp: mainRoute_def split: list.split)
qed

text \<open>A target that the file does not mention gets the built-in routes, also when an earlier file had
  replaced them.\<close>

lemma fee_update_unmentioned:
  assumes "apply_file json_parse ed25519_verify now body s = Inr s'" and "fee_signed json_parse ed25519_verify body doc"
    and "get_array (member ''routes'' doc) = Some vs" and "map parseRoute vs = map Some remote"
    and "of_target t remote = []"
  shows "of_target t (f_current s') = of_target t builtin"
proof -
  obtain doc' vs' remote' where d: "fee_signed json_parse ed25519_verify body doc'"
    "get_array (member ''routes'' doc') = Some vs'" "parse_routes vs' = Some remote'" "f_current s' = merge_routes remote'"
    using assms(1) by (rule apply_file_accepted) auto
  have "doc' = doc" using d(1) assms(2) by (rule fee_signed_unique)
  with d(2) assms(3) have "vs' = vs" by simp
  then have "remote' = remote" using parse_routes_map [OF d(3)] assms(4) by (simp add: inj_map_eq_map)
  then show ?thesis using assms(5) by (simp add: d(4) merge_of_target)
qed

section \<open>Requests\<close>

text \<open>A run that records, for every event, whether it requests the file.\<close>

primrec fee_requests ::
  "(string \<Rightarrow> json option) \<Rightarrow> (bytes \<Rightarrow> string \<Rightarrow> string \<Rightarrow> bool) \<Rightarrow> fee_event list \<Rightarrow> fee_state
    \<Rightarrow> fee_state \<times> bool list" where
  "fee_requests json_parse ed25519_verify [] s = (s, [])"
| "fee_requests json_parse ed25519_verify (e # es) s =
     (case fee_requests json_parse ed25519_verify es (fee_step json_parse ed25519_verify e s) of
        (t, rs) \<Rightarrow> (t, (case e of Tick now \<Rightarrow> snd (fee_tick now s) | _ \<Rightarrow> False) # rs))"

definition no_answer :: "fee_event list \<Rightarrow> bool" where
  "no_answer es \<longleftrightarrow> (\<forall>now steady status body. Answer now steady status body \<notin> set es)"

text \<open>While a request is pending, and while the next one is not due, nothing is requested and the schedule
  stays as it is.\<close>

lemma fee_quiet:
  assumes "f_started s" and "no_answer es" and "f_busy s \<or> (\<forall>now. Tick now \<in> set es \<longrightarrow> now < f_next s)"
    and "fee_requests json_parse ed25519_verify es s = (t, rs)"
  shows "True \<notin> set rs \<and> f_started t \<and> f_busy t = f_busy s \<and> f_next t = f_next s"
  using assms
proof (induction es arbitrary: s rs)
  case (Cons e es)
  let ?s = "fee_step json_parse ed25519_verify e s"
  obtain rs' where r: "fee_requests json_parse ed25519_verify es ?s = (t, rs')"
    "rs = (case e of Tick now \<Rightarrow> snd (fee_tick now s) | _ \<Rightarrow> False) # rs'"
    using Cons.prems(4) by (auto split: prod.split_asm)
  have "f_started ?s \<and> f_busy ?s = f_busy s \<and> f_next ?s = f_next s
      \<and> \<not> (case e of Tick now \<Rightarrow> snd (fee_tick now s) | _ \<Rightarrow> False)"
    using Cons.prems(1-3) by (cases e) (auto simp: setGpu_def fee_start_def fee_tick_def Let_def no_answer_def)
  moreover have "True \<notin> set rs' \<and> f_started t \<and> f_busy t = f_busy ?s \<and> f_next t = f_next ?s"
    using calculation Cons.prems(2,3) by (intro Cons.IH [OF _ _ _ r(1)]) (auto simp: no_answer_def)
  ultimately show ?case by (simp add: r(2))
qed simp

lemma fee_answer_schedule:
  assumes "f_started s" and "t = onHttpData json_parse ed25519_verify wall steady status body s"
  shows "f_started t \<and> \<not> f_busy t \<and> f_next t = steady + (if status = 200 \<and>
      (case apply_file json_parse ed25519_verify wall body (fee_get s) of Inr _ \<Rightarrow> True | Inl why \<Rightarrow> why = NotNewer)
    then kRefreshInterval else kRetryInterval)"
proof -
  let ?s = "(fee_get s)\<lparr> f_busy := False \<rparr>"
  let ?r = "apply_file json_parse ed25519_verify wall body ?s"
  have "fee_get (fee_get s) = fee_get s" by (simp add: fee_get_id)
  then have "(case apply_file json_parse ed25519_verify wall body (fee_get s) of Inr _ \<Rightarrow> True | Inl why \<Rightarrow> why = NotNewer)
      = (case ?r of Inr _ \<Rightarrow> True | Inl why \<Rightarrow> why = NotNewer)"
    by (rule apply_file_busy [symmetric])
  moreover have "f_started t \<and> \<not> f_busy t \<and> f_next t = steady + (if status = 200 \<and>
      (case ?r of Inr _ \<Rightarrow> True | Inl why \<Rightarrow> why = NotNewer) then kRefreshInterval else kRetryInterval)"
  proof (cases ?r)
    case (Inr t')
    then show ?thesis
      using assms apply_file_table(5,6) [OF Inr] by (cases "status = 200") (simp_all add: onHttpData_def Let_def)
  next
    case (Inl why)
    then show ?thesis using assms by (simp add: onHttpData_def Let_def)
  qed
  ultimately show ?thesis by simp
qed

text \<open>C27. Requests are spaced. A tick that requests the file is followed by no other request until the
  answer, whatever else is called and however often the timer ticks. The answer fixes the time of the next request:
  30 minutes later, or 4 hours later when the file was accepted or is the one in use. No tick before this time
  requests the file, and the first one that is not before it does.\<close>

theorem fee_requests_spaced:
  assumes "fee_tick now s = (s1, True)"
    and "no_answer es1" and "fee_requests json_parse ed25519_verify es1 s1 = (s2, rs1)"
    and "s3 = onHttpData json_parse ed25519_verify wall steady status body s2"
    and "no_answer es2" and "\<And>t. Tick t \<in> set es2 \<Longrightarrow> t < f_next s3"
    and "fee_requests json_parse ed25519_verify es2 s3 = (s4, rs2)"
  shows "True \<notin> set rs1 \<and> True \<notin> set rs2 \<and> (snd (fee_tick later s4) \<longleftrightarrow> f_next s3 \<le> later)
    \<and> f_next s3 = steady + (if status = 200 \<and> (case apply_file json_parse ed25519_verify wall body (fee_get s2) of
        Inr _ \<Rightarrow> True | Inl why \<Rightarrow> why = NotNewer) then kRefreshInterval else kRetryInterval)"
proof -
  have "f_started s1" "f_busy s1" using assms(1) by (auto simp: fee_tick_def Let_def split: if_splits)
  then have 1: "True \<notin> set rs1" "f_started s2" using fee_quiet [OF _ assms(2) _ assms(3)] by blast+
  note a = fee_answer_schedule [OF 1(2) assms(4)]
  then have "True \<notin> set rs2 \<and> f_started s4 \<and> f_busy s4 = f_busy s3 \<and> f_next s4 = f_next s3"
    using assms(6) by (intro fee_quiet [OF _ assms(5) _ assms(7)]) auto
  with 1(1) a show ?thesis by (auto simp: fee_tick_def Let_def not_less)
qed

section \<open>The properties on a concrete update\<close>

text \<open>A parser that knows one file, \<open>E\<close>, with the payload \<open>P\<close>, and a verifier that accepts
  every signature of 64 bytes.\<close>

definition demo_route :: json where
  "demo_route = JObject [(''target'', JString ''cpu''), (''algo'', JString ''rx/0''), (''mode'', JString ''pool''),
     (''host'', JString ''pool.example.org''), (''port'', JInt 3333), (''tls'', JBool False),
     (''user'', JString ''wallet''), (''label'', JString ''demo'')]"

definition demo_json :: "string \<Rightarrow> json option" where
  "demo_json s =
     (if s = ''E'' then Some (JObject [(''data'', JString ''UA==''), (''sig'', JString (replicate 86 CHR ''A''))])
      else if s = ''P'' then Some (JObject [(''v'', JInt 1), (''seq'', JInt 7), (''expires'', JInt 2000),
        (''routes'', JArray [demo_route])])
      else None)"

definition demo_verify :: "bytes \<Rightarrow> string \<Rightarrow> string \<Rightarrow> bool" where
  "demo_verify pub signature message \<longleftrightarrow> length pub = 32"

definition demo_parsed :: FeeRoute where
  "demo_parsed = \<lparr> r_target = CPU, r_mode = MODE_POOL, r_algo = RX_0, r_host = ''pool.example.org'', r_port = 3333,
     r_tls = False, r_user = ''wallet'', r_pass = ''x'', r_label = ''demo'' \<rparr>"

lemma demo_parse: "parseRoute demo_route = Some demo_parsed"
proof -
  have c: "c_str ''cpu'' = ''cpu''" "c_str ''rx/0'' = ''rx/0''" "c_str ''pool'' = ''pool''" "c_str ''wallet'' = ''wallet''"
    "c_str ''pool.example.org'' = ''pool.example.org''" "c_str ''demo'' = ''demo''"
    by (simp_all add: c_str_def)
  have t: "hostOk ''pool.example.org''" "textOk ''wallet'' 200" "textOk ''demo'' 120" by code_simp+
  show ?thesis
    by (simp add: parseRoute_def demo_route_def route_str_def c t parse_target_def parse_mode_def parse_rx_0
      builtin_algos demo_parsed_def)
qed

lemma demo_parse_routes: "parse_routes [demo_route] = Some [demo_parsed]"
  by (simp add: demo_parse)

definition demo_state :: fee_state where
  "demo_state = fee_init\<lparr> f_current := merge_routes [demo_parsed], f_sequence := 7,
     f_source := ''updated by the operator, sequence '' @ digits10 7, f_version := 2, f_next := 5 + kRefreshInterval \<rparr>"

lemma demo_payload:
  assumes "f_sequence s = 0" and "f_version s = 1"
  shows "apply_payload demo_json 1000 ''P'' s = Inr (s\<lparr> f_current := merge_routes [demo_parsed], f_sequence := 7,
     f_source := ''updated by the operator, sequence '' @ digits10 7, f_version := 2 \<rparr>)"
proof -
  have "c_str ''P'' = ''P''" by (simp add: c_str_def)
  then show ?thesis using assms
    by (simp add: apply_payload_def demo_json_def demo_parse kMaxValidity_def kMaxRoutes_def)
qed

lemma demo_step: "fee_step demo_json demo_verify (Answer 1000 5 200 ''E'') fee_init = demo_state"
proof -
  have "base64Decode ''UA=='' = Some ''P''" by code_simp
  moreover have "base64Decode (replicate 86 CHR ''A'') = Some (replicate 64 CHR 0x00)" by code_simp
  moreover have "map_option length (hexValue fee_pubkey_hex 32) = Some 32" by code_simp
  moreover have "c_str ''E'' = ''E''" by (simp add: c_str_def)
  ultimately show ?thesis
    using demo_payload [of "fee_get ((fee_get fee_init)\<lparr> f_busy := False \<rparr>)"]
    by (auto simp: demo_state_def onHttpData_def apply_file_def Let_def demo_json_def verifySignature_def
      demo_verify_def kMaxBody_def fee_get_def fee_init_def split: option.splits)
qed

lemma demo_c_str: "c_str ''P'' = ''P''" "c_str ''E'' = ''E''"
  by (simp_all add: c_str_def)

lemma demo_signed: "fee_signed demo_json demo_verify ''E'' (JObject [(''v'', JInt 1), (''seq'', JInt 7), (''expires'', JInt 2000),
    (''routes'', JArray [demo_route])])"
proof -
  have "base64Decode ''UA=='' = Some ''P''" "base64Decode (replicate 86 CHR ''A'') = Some (replicate 64 CHR 0x00)"
    "map_option length (hexValue fee_pubkey_hex 32) = Some 32"
    by code_simp+
  then show ?thesis by (auto simp: fee_signed_def demo_c_str demo_json_def demo_verify_def)
qed

lemma demo_file: "\<exists>s. apply_file demo_json demo_verify 1000 ''E'' fee_init = Inr s"
proof -
  have "base64Decode ''UA=='' = Some ''P''" "base64Decode (replicate 86 CHR ''A'') = Some (replicate 64 CHR 0x00)"
    "map_option length (hexValue fee_pubkey_hex 32) = Some 32"
    by code_simp+
  then show ?thesis
    using demo_payload [of "fee_get fee_init"]
    by (auto simp: apply_file_def Let_def demo_json_def verifySignature_def demo_verify_def kMaxBody_def demo_c_str
      fee_init_def split: option.splits)
qed

lemma demo_reach: "fee_reach demo_json demo_verify fee_init demo_state"
  using fee_next [OF fee_refl, of demo_json demo_verify fee_init "Answer 1000 5 200 ''E''"] by (simp only: demo_step)

lemma demo_values: "f_current demo_state = merge_routes [demo_parsed]" "f_gpu demo_state = False"
  by (simp_all add: demo_state_def fee_init_def)

theorem fee_main_route_witness: "\<exists>r. mainRoute demo_state = Some r \<and> r_target r = CPU \<and> route_ok r"
  using fee_main_route [OF demo_reach] by (simp add: demo_values)


theorem fee_no_replay_witness:
  "f_sequence fee_init < f_sequence demo_state \<or> f_sequence demo_state = f_sequence fee_init
    \<and> f_version demo_state = f_version fee_init \<and> f_current (fee_get demo_state) = f_current (fee_get fee_init)"
  by (rule fee_no_replay [OF demo_reach])

theorem fee_builtin_without_signature_witness:
  "f_current (fee_get (fee_step demo_json (\<lambda>_ _ _. False) (Answer 1000 5 200 ''E'') fee_init)) = builtin"
  using fee_builtin_without_signature [of "\<lambda>_ _ _. False" demo_json
    "fee_step demo_json (\<lambda>_ _ _. False) (Answer 1000 5 200 ''E'') fee_init"] fee_next [OF fee_refl]
  by blast

theorem fee_update_targets_witness:
  "routes CPU (the (case apply_file demo_json demo_verify 1000 ''E'' fee_init of Inr s \<Rightarrow> Some s | Inl _ \<Rightarrow> None)) = [demo_parsed]"
proof -
  obtain s where s: "apply_file demo_json demo_verify 1000 ''E'' fee_init = Inr s" using demo_file by blast
  have "get_array (member ''routes'' (JObject [(''v'', JInt 1), (''seq'', JInt 7), (''expires'', JInt 2000),
      (''routes'', JArray [demo_route])])) = Some [demo_route]"
    by simp
  then have "routes CPU s = of_target CPU [demo_parsed]"
    using fee_update_targets [OF s demo_signed, of "[demo_route]" "[demo_parsed]" CPU] by (simp add: demo_parse demo_parsed_def)
  then show ?thesis by (simp add: s demo_parsed_def)
qed

theorem fee_requests_spaced_witness:
  "\<exists>s1 s2 s3 s4 rs1 rs2. fee_tick 20000 (fee_start None 0 fee_init) = (s1, True)
    \<and> fee_requests demo_json demo_verify [Tick 20500, SetGpu True, Tick 2000000] s1 = (s2, rs1)
    \<and> s3 = onHttpData demo_json demo_verify 1000 20005 404 [] s2
    \<and> fee_requests demo_json demo_verify [Tick 1820004] s3 = (s4, rs2)
    \<and> f_next s3 = 1820005 \<and> rs1 = [False, False, False] \<and> rs2 = [False] \<and> snd (fee_tick 1820005 s4)"
proof -
  define s1 where "s1 = fst (fee_tick 20000 (fee_start None 0 fee_init))"
  have "snd (fee_tick 20000 (fee_start None 0 fee_init))" by code_simp
  then have 1: "fee_tick 20000 (fee_start None 0 fee_init) = (s1, True)"
    unfolding s1_def by (metis prod.collapse)
  obtain s2 rs1 where 2: "fee_requests demo_json demo_verify [Tick 20500, SetGpu True, Tick 2000000] s1 = (s2, rs1)"
    by fastforce
  define s3 where "s3 = onHttpData demo_json demo_verify 1000 20005 404 [] s2"
  have n: "f_next s3 = 1820005"
    by (simp add: s3_def onHttpData_def Let_def kRetryInterval_def)
  obtain s4 rs2 where 4: "fee_requests demo_json demo_verify [Tick 1820004] s3 = (s4, rs2)" by fastforce
  have l: "length rs1 = 3" "length rs2 = 1" using 2 4 by (auto split: prod.splits)
  have "True \<notin> set rs1 \<and> True \<notin> set rs2 \<and> (snd (fee_tick 1820005 s4) \<longleftrightarrow> f_next s3 \<le> 1820005)"
    using fee_requests_spaced [OF 1 _ 2 s3_def _ _ 4, of 1820005] n by (simp add: no_answer_def)
  moreover have "rs = replicate (length rs) False" if "True \<notin> set rs" for rs
    using that by (induction rs) auto
  ultimately have "rs1 = [False, False, False]" "rs2 = [False]" "snd (fee_tick 1820005 s4)"
    using l n by (metis replicate_Suc replicate_0 numeral_3_eq_3, metis replicate_Suc replicate_0 One_nat_def, simp)
  with 1 2 s3_def 4 n show ?thesis by blast
qed

end
