(* ===== verification/Donate.thy ===== *)
theory Donate
  imports Complex_Main Strategies FeeTable_Correct
begin

text \<open>
  The strategy that mines the fee, from \<^verbatim>\<open>src/src/net/strategies/DonateStrategy.h\<close> and
  \<^verbatim>\<open>DonateStrategy.cpp\<close> (release build with TLS and KawPow). It is an owner of an inner strategy
  (failover or a single pool), whose operations are those of \<open>Strategies\<close>, and a client of the fee table.
  What happens outside is an argument: the state of the fee table at the time of the call, and \<open>denv\<close>, the
  random number \<^verbatim>\<open>rand() / RAND_MAX\<close> as a rational number in [0, 1] (the code calculates with
  doubles), the option for proxies and what the strategy of the user's pool says about its client.
  \<open>d_timer\<close> is the timeout of the timer while it is running; a timer that fires stops. Calls of the
  listener and commands to clients are outputs, as in \<open>Strategies\<close>.
\<close>

section \<open>Data\<close>

datatype dstate = STATE_NEW | STATE_IDLE | STATE_CONNECT | STATE_ACTIVE | STATE_WAIT

datatype proxy_donate = PROXY_DONATE_NONE | PROXY_DONATE_AUTO | PROXY_DONATE_ALWAYS

text \<open>The arguments of the constructor of \<^verbatim>\<open>Pool\<close> that vary, and the algorithm set afterwards.\<close>

record dpool =
  dp_host :: string
  dp_port :: u16
  dp_user :: string
  dp_pass :: "string option"
  dp_nicehash :: bool
  dp_tls :: bool
  dp_mode :: pool_mode
  dp_algo :: algo_id

text \<open>The inner strategy with the pools it was constructed for; \<open>InnerNone\<close> is the null pointer before the
  first construction.\<close>

datatype inner = InnerNone | InnerFailover "dpool list" failover | InnerSingle dpool single

record donate =
  d_state :: dstate
  d_route :: bool
  d_target :: FeeTarget
  d_routesVersion :: u64
  d_pools :: "dpool list"
  d_strategy :: inner
  d_mainProxy :: "string option"
  d_proxy :: bool
  d_tls :: bool
  d_algorithm :: algo_id
  d_donateTime :: u64
  d_idleTime :: u64
  d_timer :: "u64 option"
  d_now :: u64
  d_timestamp :: u64
  d_diff :: u64
  d_height :: u64
  d_seed :: bytes

record denv =
  e_rand :: rat
  e_proxyDonate :: proxy_donate
  e_mainActive :: bool
  e_extConnect :: bool
  e_extTls :: bool

datatype d_action = Client s_action | ProxyConnect | ProxyDelete | ProxyTick u64 | ProxySubmit
  | ListenerActive | ListenerPause | ListenerJob | ListenerResult | ListenerVerify | LoginParams

definition kFeeUnit :: u64 where
  "kFeeUnit = 60 * 1000"

section \<open>The inner strategy\<close>

definition inner_step :: "s_event \<Rightarrow> inner \<Rightarrow> inner \<times> s_action list" where
  "inner_step e i =
     (case i of
        InnerNone \<Rightarrow> (InnerNone, [])
      | InnerFailover pools s \<Rightarrow> (case fo_step e s of (s, out) \<Rightarrow> (InnerFailover pools s, out))
      | InnerSingle pool s \<Rightarrow> (case sp_step e s of (s, out) \<Rightarrow> (InnerSingle pool s, out)))"

definition d_isActive :: "donate \<Rightarrow> bool" where
  "d_isActive d \<longleftrightarrow> d_state d = STATE_ACTIVE"

text \<open>\<open>setState(STATE_ACTIVE)\<close>, the only transition that a call from the inner strategy or the proxy
  makes.\<close>

definition set_active :: "donate \<Rightarrow> donate" where
  "set_active d = (if d_state d = STATE_ACTIVE then d else d\<lparr> d_state := STATE_ACTIVE, d_timer := Some (d_donateTime d) \<rparr>)"

definition d_onActive :: "donate \<Rightarrow> donate \<times> d_action list" where
  "d_onActive d = (if d_isActive d then (d, []) else (set_active d, [ListenerActive]))"

definition d_setJob :: "donate \<Rightarrow> d_action list" where
  "d_setJob d = (if d_isActive d then [ListenerJob] else [])"

text \<open>What the strategy does with an output of the inner one.\<close>

fun d_callback :: "s_action \<Rightarrow> donate \<Rightarrow> donate \<times> d_action list" where
  "d_callback (OnActive _) d = d_onActive d"
| "d_callback OnPause d = (d, [])"
| "d_callback (OnJob _) d = (d, d_setJob d)"
| "d_callback (OnLogin _) d = (d, [LoginParams])"
| "d_callback (OnResult _) d = (d, [ListenerResult])"
| "d_callback (OnVerify _) d = (d, [ListenerVerify])"
| "d_callback a d = (d, [Client a])"

definition d_inner :: "s_event \<Rightarrow> donate \<Rightarrow> donate \<times> d_action list" where
  "d_inner e d = (case inner_step e (d_strategy d) of (i, out) \<Rightarrow> s_run d_callback out (d\<lparr> d_strategy := i \<rparr>))"

section \<open>Routes\<close>

definition pool_of_route :: "FeeRoute \<Rightarrow> dpool" where
  "pool_of_route r = \<lparr> dp_host = c_str (r_host r), dp_port = r_port r, dp_user = c_str (r_user r),
     dp_pass = Some (c_str (r_pass r)), dp_nicehash = False, dp_tls = r_tls r, dp_mode = r_mode r, dp_algo = r_algo r \<rparr>"

definition loadRoutes :: "fee_state \<Rightarrow> donate \<Rightarrow> donate" where
  "loadRoutes f d =
     (let pools = map pool_of_route (routes (d_target d) f);
          d = d\<lparr> d_pools := pools, d_routesVersion := version f \<rparr>
      in case pools of [] \<Rightarrow> d | p # _ \<Rightarrow> d\<lparr> d_algorithm := dp_algo p \<rparr>)"

definition createStrategy :: "donate \<Rightarrow> donate \<times> d_action list" where
  "createStrategy d =
     (let d = d\<lparr> d_strategy := (if length (d_pools d) > 1
                              then InnerFailover (d_pools d) (failover_new (length (d_pools d)) 2)
                              else InnerSingle (hd (d_pools d)) single_new) \<rparr>
      in if d_mainProxy d \<noteq> None then d_inner (SetProxy (d_mainProxy d)) d else (d, []))"

definition refreshRoutes :: "fee_state \<Rightarrow> donate \<Rightarrow> donate \<times> d_action list" where
  "refreshRoutes f d =
     (if \<not> d_route d \<or> d_routesVersion d = version f then (d, [])
      else let previous = d_pools d; d = loadRoutes f d
           in if d_pools d = [] then (d\<lparr> d_pools := previous \<rparr>, []) else createStrategy d)"

section \<open>The state machine\<close>

text \<open>\<open>random(base, min, max)\<close> with the fraction \<open>r\<close>, and \<open>idle\<close>.\<close>

definition d_random :: "u64 \<Rightarrow> rat \<Rightarrow> rat \<Rightarrow> rat \<Rightarrow> u64" where
  "d_random base lo hi r = word_of_int \<lfloor>of_int (uint base) * ((hi - lo) * r + lo)\<rfloor>"

definition d_idle :: "rat \<Rightarrow> rat \<Rightarrow> rat \<Rightarrow> donate \<Rightarrow> donate" where
  "d_idle lo hi r d = d\<lparr> d_timer := Some (d_random (d_idleTime d) lo hi r) \<rparr>"

definition createProxy :: "denv \<Rightarrow> donate \<Rightarrow> bool \<times> donate" where
  "createProxy env d =
     (if e_proxyDonate env = PROXY_DONATE_NONE then (False, d)
      else if \<not> e_mainActive env \<or> \<not> e_extConnect env then (False, d)
      else (True, d\<lparr> d_tls := e_extTls env \<rparr>))"

definition d_connect :: "denv \<Rightarrow> donate \<Rightarrow> donate \<times> d_action list" where
  "d_connect env d =
     (let (proxy, d) = (if d_route d then (False, d) else createProxy env d); d = d\<lparr> d_proxy := proxy \<rparr>
      in if d_proxy d then (d, [ProxyConnect]) else d_inner Connect d)"

definition setState :: "fee_state \<Rightarrow> denv \<Rightarrow> dstate \<Rightarrow> donate \<Rightarrow> donate \<times> d_action list" where
  "setState f env state d0 =
     (if d_state d0 = state then (d0, [])
      else let prev = d_state d0; d = d0\<lparr> d_state := state \<rparr>
      in case state of
           STATE_NEW \<Rightarrow> (d, [])
         | STATE_IDLE \<Rightarrow>
             if prev = STATE_NEW then (d_idle (1 / 2) (3 / 2) (e_rand env) d, [])
             else if prev = STATE_CONNECT then (d\<lparr> d_timer := Some 20000 \<rparr>, [])
             else (case d_inner Stop d of (d, out) \<Rightarrow>
               let (d, out) = (if d_proxy d then (d\<lparr> d_proxy := False \<rparr>, out @ [ProxyDelete]) else (d, out))
               in (d_idle (4 / 5) (6 / 5) (e_rand env) d, out))
         | STATE_CONNECT \<Rightarrow>
             (case refreshRoutes f d of (d, out) \<Rightarrow> case d_connect env d of (d, out') \<Rightarrow> (d, out @ out'))
         | STATE_ACTIVE \<Rightarrow> (d\<lparr> d_timer := Some (d_donateTime d) \<rparr>, [])
         | STATE_WAIT \<Rightarrow> (d\<lparr> d_timestamp := d_now d + 3000 \<rparr>, [ListenerPause]))"

text \<open>The constructor, with the fee in percent and the identifier of the user (a hash of the wallet).\<close>

definition kDonatePools :: "string \<Rightarrow> dpool list" where
  "kDonatePools userId =
     [\<lparr> dp_host = ''donate.ssl.xmrig.com'', dp_port = 443, dp_user = userId, dp_pass = None, dp_nicehash = True,
        dp_tls = True, dp_mode = MODE_AUTO_ETH, dp_algo = INVALID \<rparr>,
      \<lparr> dp_host = ''donate.v2.xmrig.com'', dp_port = 3333, dp_user = userId, dp_pass = None, dp_nicehash = True,
        dp_tls = False, dp_mode = MODE_AUTO_ETH, dp_algo = INVALID \<rparr>]"

definition donate_new :: "u64 \<Rightarrow> string \<Rightarrow> fee_state \<Rightarrow> denv \<Rightarrow> donate \<times> d_action list" where
  "donate_new donateLevel userId f env =
     (let d = \<lparr> d_state = STATE_NEW, d_route = mainRoute f \<noteq> None, d_target = CPU, d_routesVersion = 0, d_pools = [],
            d_strategy = InnerNone, d_mainProxy = None, d_proxy = False, d_tls = False,
            d_algorithm = INVALID, d_donateTime = donateLevel * kFeeUnit, d_idleTime = (100 - donateLevel) * kFeeUnit,
            d_timer = None, d_now = 0, d_timestamp = 0, d_diff = 0, d_height = 0, d_seed = [] \<rparr>;
          d = (if d_route d then loadRoutes f (d\<lparr> d_target := target f \<rparr>) else d\<lparr> d_pools := kDonatePools userId \<rparr>);
          (d, out) = createStrategy d;
          (d, out') = setState f env STATE_IDLE d
      in (d, out @ out'))"

definition d_setAlgo :: "algo_id \<Rightarrow> donate \<Rightarrow> donate \<times> d_action list" where
  "d_setAlgo algo d = d_inner (SetAlgo algo) (d\<lparr> d_algorithm := algo \<rparr>)"

definition d_setProxy :: "string option \<Rightarrow> donate \<Rightarrow> donate \<times> d_action list" where
  "d_setProxy proxy d = d_inner (SetProxy proxy) (d\<lparr> d_mainProxy := proxy \<rparr>)"

definition d_update :: "string option \<Rightarrow> algo_id \<Rightarrow> u64 \<Rightarrow> u64 \<Rightarrow> bytes \<Rightarrow> donate \<Rightarrow> donate \<times> d_action list" where
  "d_update proxy algo diff height seed d =
     (let (d, out) = (if \<not> d_route d then d_setAlgo algo d else (d, []));
          (d, out') = d_setProxy proxy d
      in (d\<lparr> d_diff := diff, d_height := height, d_seed := seed \<rparr>, out @ out'))"

definition d_submit :: "donate \<Rightarrow> donate \<times> d_action list" where
  "d_submit d = (if d_proxy d then (d, [ProxySubmit]) else d_inner Submit d)"

definition d_stop :: "donate \<Rightarrow> donate \<times> d_action list" where
  "d_stop d = d_inner Stop (d\<lparr> d_timer := None \<rparr>)"

definition d_tick :: "fee_state \<Rightarrow> denv \<Rightarrow> u64 \<Rightarrow> donate \<Rightarrow> donate \<times> d_action list" where
  "d_tick f env now d =
     (let (d, out) = d_inner (STick now) (d\<lparr> d_now := now \<rparr>);
          out = out @ (if d_proxy d then [ProxyTick now] else [])
      in if d_state d = STATE_WAIT \<and> now > d_timestamp d
         then (case setState f env STATE_IDLE d of (d, out') \<Rightarrow> (d, out @ out')) else (d, out))"

text \<open>\<open>onTimer\<close>: the timer fires only while it is running.\<close>

definition d_onTimer :: "fee_state \<Rightarrow> denv \<Rightarrow> donate \<Rightarrow> donate \<times> d_action list" where
  "d_onTimer f env d =
     (if d_timer d = None then (d, [])
      else let d = d\<lparr> d_timer := None \<rparr> in setState f env (if d_isActive d then STATE_WAIT else STATE_CONNECT) d)"

text \<open>The calls of the proxy, as long as there is one.\<close>

definition d_onClose :: "denv \<Rightarrow> int \<Rightarrow> donate \<Rightarrow> donate \<times> d_action list" where
  "d_onClose env failures d =
     (if failures = 2 \<and> e_proxyDonate env = PROXY_DONATE_AUTO
      then (case d_inner Connect (d\<lparr> d_proxy := False \<rparr>) of (d, out) \<Rightarrow> (d, ProxyDelete # out))
      else (d, []))"

text \<open>The algorithms in the login: the one of the route first.\<close>

definition login_algorithms :: "algo_id \<Rightarrow> algo_id list \<Rightarrow> algo_id list" where
  "login_algorithms a algorithms =
     (let index = length (takeWhile (\<lambda>x. x \<noteq> a) algorithms)
      in if 0 < index \<and> index < length algorithms
         then algorithms[0 := algorithms ! index, index := algorithms ! 0] else algorithms)"

datatype d_event = DTimer | DTick u64 | DClient s_event | DProxyClose int | DProxyLogin | DSubmit
  | DUpdate "string option" algo_id u64 u64 bytes | DStop

fun d_step :: "fee_state \<Rightarrow> denv \<Rightarrow> d_event \<Rightarrow> donate \<Rightarrow> donate \<times> d_action list" where
  "d_step f env DTimer d = d_onTimer f env d"
| "d_step f env (DTick now) d = d_tick f env now d"
| "d_step f env (DClient e) d = d_inner e d"
| "d_step f env (DProxyClose failures) d = (if d_proxy d then d_onClose env failures d else (d, []))"
| "d_step f env DProxyLogin d = (if d_proxy d then d_onActive d else (d, []))"
| "d_step f env DSubmit d = d_submit d"
| "d_step f env (DUpdate proxy algo diff height seed) d = d_update proxy algo diff height seed d"
| "d_step f env DStop d = d_stop d"

end
