(* ===== verification/Donate_Correct.thy ===== *)
theory Donate_Correct
  imports Donate
begin

text \<open>
  The fee strategy together with the fee table. A run of both interleaves the operations of the
  table, the calls of the strategy and the events of its clients in any order. The strategy always
  mines on routes of the table, never through a proxy, takes an update of the table over at the next
  connection, and idles and mines for the time of its fee.
\<close>

section \<open>Calls of the inner strategy\<close>

lemma callback_quiet: "(\<And>c. a \<noteq> OnActive c) \<Longrightarrow> fst (d_callback a d) = d"
  by (cases a) auto

lemma callbacks_quiet: "(\<And>c. OnActive c \<notin> set out) \<Longrightarrow> fst (s_run d_callback out d) = d"
proof (induction out arbitrary: d)
  case (Cons a out)
  have "fst (d_callback a d) = d" using Cons.prems by (intro callback_quiet) auto
  with Cons show ?case by (simp add: split_beta)
qed simp

lemma not_login_quiet:
  assumes "\<And>c. e \<noteq> LoginSuccess c"
  shows "OnActive c \<notin> set (snd (inner_step e i))"
proof (cases i)
  case InnerNone
  then show ?thesis by (simp add: inner_step_def)
next
  case (InnerFailover pools s)
  then show ?thesis using assms
    by (cases e) (auto simp: inner_step_def fo_submit_def fo_connect_def fo_resume_def fo_setAlgo_def fo_setProxy_def
      fo_stop_def fo_tick_def fo_onClose_def fo_onJobReceived_def Let_def split: prod.splits)
next
  case (InnerSingle pool s)
  then show ?thesis using assms
    by (cases e) (auto simp: inner_step_def sp_resume_def sp_onClose_def)
qed

lemma d_inner_quiet:
  "(\<And>c. e \<noteq> LoginSuccess c) \<Longrightarrow> fst (d_inner e d) = d\<lparr> d_strategy := fst (inner_step e (d_strategy d)) \<rparr>"
  using not_login_quiet by (simp add: d_inner_def split_beta callbacks_quiet)

text \<open>In general, a call may also make the fee strategy active.\<close>

lemma set_active_active: "d_state d = STATE_ACTIVE \<Longrightarrow> set_active d = d"
  by (simp add: set_active_def)

lemma callback_any: "fst (d_callback a d) = d \<or> fst (d_callback a d) = set_active d"
  by (cases a) (auto simp: d_onActive_def)

lemma callbacks_any: "fst (s_run d_callback out d) = d \<or> fst (s_run d_callback out d) = set_active d"
proof (induction out arbitrary: d)
  case (Cons a out)
  have "set_active (set_active d) = set_active d" by (simp add: set_active_def)
  with Cons.IH [of d] Cons.IH [of "set_active d"] callback_any [of a d] show ?case by (auto simp: split_beta)
qed simp

lemma d_inner_any:
  obtains i where "fst (d_inner e d) = d\<lparr> d_strategy := i \<rparr> \<or> fst (d_inner e d) = set_active (d\<lparr> d_strategy := i \<rparr>)"
  using callbacks_any by (auto simp: d_inner_def split_beta)

text \<open>If the inner failover strategy becomes active, so does the fee strategy.\<close>

definition inner_active :: "inner \<Rightarrow> bool" where
  "inner_active i \<longleftrightarrow> (case i of InnerFailover pools s \<Rightarrow> fo_isActive s | _ \<Rightarrow> False)"

lemma callbacks_active: "OnActive c \<in> set out \<Longrightarrow> fst (s_run d_callback out d) = set_active d"
proof (induction out arbitrary: d)
  case (Cons a out)
  have s: "set_active (set_active d) = set_active d" by (simp add: set_active_def)
  show ?case
  proof (cases "a = OnActive c")
    case True
    then have "fst (d_callback a d) = set_active d" by (auto simp: d_onActive_def d_isActive_def set_active_def)
    then show ?thesis using callbacks_any [of out "set_active d"] s by (auto simp: split_beta)
  next
    case False
    then show ?thesis using Cons callback_any [of a d] s by (auto simp: split_beta)
  qed
qed simp

lemma listen_active: "listen False out \<Longrightarrow> \<exists>c. OnActive c \<in> set out"
  by (induction False out rule: listen.induct) (auto)

lemma d_inner_strategy: "d_strategy (fst (d_inner e d)) = fst (inner_step e (d_strategy d))"
  using callbacks_any [of "snd (inner_step e (d_strategy d))" "d\<lparr> d_strategy := fst (inner_step e (d_strategy d)) \<rparr>"]
  by (auto simp: d_inner_def split_beta set_active_def)

lemma d_inner_active:
  assumes "\<not> inner_active (d_strategy d)"
  shows "inner_active (d_strategy (fst (d_inner e d))) \<Longrightarrow> d_state (fst (d_inner e d)) = STATE_ACTIVE"
proof -
  let ?i = "fst (inner_step e (d_strategy d))" and ?out = "snd (inner_step e (d_strategy d))"
  have f: "fst (d_inner e d) = fst (s_run d_callback ?out (d\<lparr> d_strategy := ?i \<rparr>))" by (simp add: d_inner_def split_beta)
  note i = d_inner_strategy [of e d]
  assume a: "inner_active (d_strategy (fst (d_inner e d)))"
  then obtain pools s where s: "d_strategy d = InnerFailover pools s"
    unfolding i by (cases "d_strategy d") (auto simp: inner_step_def inner_active_def split_beta)
  have "\<not> fo_isActive s" "fo_isActive (fst (fo_step e s))" "?out = snd (fo_step e s)"
    using a assms unfolding i s by (simp_all add: inner_step_def inner_active_def split_beta)
  then obtain c where "OnActive c \<in> set ?out" using fo.step_listen [of s e] listen_active by fastforce
  then show ?thesis unfolding f by (simp add: callbacks_active) (simp add: set_active_def)
qed

lemma inner_step_same:
  "fst (inner_step Connect i) = i" "fst (inner_step (SetProxy proxy) i) = i" "fst (inner_step (STick now) i) = i"
  by (auto simp: inner_step_def split: inner.split)

lemma inner_step_stop: "\<not> inner_active (fst (inner_step Stop i))"
  by (auto simp: inner_step_def inner_active_def fo_stop_def fo_isActive_def split: inner.split)

text \<open>The pools of the inner strategy, their number as the failover strategy has it, and the pool in
  turn.\<close>

fun inner_pools :: "inner \<Rightarrow> dpool list" where
  "inner_pools InnerNone = []"
| "inner_pools (InnerFailover pools s) = pools"
| "inner_pools (InnerSingle pool s) = [pool]"

fun inner_count :: "inner \<Rightarrow> nat" where
  "inner_count InnerNone = 0"
| "inner_count (InnerFailover pools s) = fo_pools s"
| "inner_count (InnerSingle pool s) = 1"

fun inner_index :: "inner \<Rightarrow> nat" where
  "inner_index (InnerFailover pools s) = fo_index s"
| "inner_index _ = 0"

lemma fo_step_pools: "fo_pools (fst (fo_step e s)) = fo_pools s"
  by (cases e) (simp_all add: fo_stop_def fo_onClose_def fo_onLoginSuccess_def Let_def)

lemma inner_step_pools [simp]:
  "inner_pools (fst (inner_step e i)) = inner_pools i" "inner_count (fst (inner_step e i)) = inner_count i"
  by (cases i; simp add: inner_step_def split_beta fo_step_pools)+

text \<open>The inner strategy is the one of the current pools.\<close>

definition inner_ok :: "donate \<Rightarrow> bool" where
  "inner_ok d \<longleftrightarrow> inner_pools (d_strategy d) = d_pools d \<and> inner_count (d_strategy d) = length (d_pools d)"

text \<open>Commands to clients, and what the listener hears.\<close>

definition heard :: "d_action list \<Rightarrow> d_action list" where
  "heard out = filter (\<lambda>a. a = ListenerActive \<or> a = ListenerPause) out"

lemma heard_simps [simp]:
  "heard [] = []" "heard (xs @ ys) = heard xs @ heard ys" "heard (Client a # xs) = heard xs"
  "heard (ListenerActive # xs) = ListenerActive # heard xs" "heard (ListenerPause # xs) = ListenerPause # heard xs"
  by (simp_all add: heard_def)

fun client_command :: "s_action \<Rightarrow> bool" where
  "client_command (ClientConnect c) = True"
| "client_command (ClientDisconnect c) = True"
| "client_command (ClientTick c now) = True"
| "client_command (ClientSetAlgo c a) = True"
| "client_command (ClientSetProxy c p) = True"
| "client_command (ClientSubmit c) = True"
| "client_command _ = False"

lemma callback_commands: "client_command a \<Longrightarrow> d_callback a d = (d, [Client a])"
  by (cases a) simp_all

lemma callbacks_commands: "list_all client_command out \<Longrightarrow> s_run d_callback out d = (d, map Client out)"
  by (induction out) (simp_all add: callback_commands)

lemma heard_commands [simp]: "heard (map Client out) = []"
  by (induction out) simp_all

lemma d_inner_connect:
  "d_strategy d \<noteq> InnerNone \<Longrightarrow> snd (d_inner Connect d) = [Client (ClientConnect (inner_index (d_strategy d)))]"
  by (cases "d_strategy d") (simp_all add: d_inner_def inner_step_def fo_connect_def)

lemma d_inner_proxy: "heard (snd (d_inner (SetProxy proxy) d)) = []"
proof -
  have "list_all client_command (snd (inner_step (SetProxy proxy) (d_strategy d)))"
    by (cases "d_strategy d") (simp_all add: inner_step_def fo_setProxy_def list_all_iff)
  then show ?thesis by (simp add: d_inner_def split_beta callbacks_commands)
qed

lemma d_inner_tick: "heard (snd (d_inner (STick now) d)) = []"
proof -
  have "list_all client_command (snd (inner_step (STick now) (d_strategy d)))"
    by (cases "d_strategy d") (simp_all add: inner_step_def fo_tick_def list_all_iff)
  then show ?thesis by (simp add: d_inner_def split_beta callbacks_commands)
qed

lemma d_inner_stop:
  "heard (snd (d_inner Stop d)) = [] \<and> (\<forall>k < inner_count (d_strategy d). Client (ClientDisconnect k) \<in> set (snd (d_inner Stop d)))"
proof (cases "d_strategy d")
  case (InnerFailover pools s)
  have r: "s_run f (xs @ ys) t = (fst (s_run f ys (fst (s_run f xs t))), snd (s_run f xs t) @ snd (s_run f ys (fst (s_run f xs t))))"
    for f :: "s_action \<Rightarrow> donate \<Rightarrow> donate \<times> d_action list" and xs ys t
    by (rule s_run_append)
  have "snd (d_inner Stop d) = map (\<lambda>k. Client (ClientDisconnect k)) [0..<fo_pools s]"
    using InnerFailover by (simp add: d_inner_def inner_step_def fo_stop_def r callbacks_commands list_all_iff comp_def)
  moreover have "heard (map (\<lambda>k. Client (ClientDisconnect k)) ks) = []" for ks
    by (induction ks) simp_all
  ultimately show ?thesis using InnerFailover by simp
qed (simp_all add: d_inner_def inner_step_def)

section \<open>Invariant of the strategy\<close>

text \<open>Route mode: no proxy. The timer is running exactly in the phases that it ends.\<close>

definition timer_ok :: "donate \<Rightarrow> bool" where
  "timer_ok d \<longleftrightarrow> d_state d \<noteq> STATE_NEW \<and> (d_timer d \<noteq> None \<longleftrightarrow> d_state d \<in> {STATE_IDLE, STATE_ACTIVE})"

definition route_mode :: "donate \<Rightarrow> bool" where
  "route_mode d \<longleftrightarrow> d_route d \<and> \<not> d_proxy d \<and> d_pools d \<noteq> []"

text \<open>Between two connections the inner failover strategy is not active.\<close>

definition inner_idle :: "donate \<Rightarrow> bool" where
  "inner_idle d \<longleftrightarrow> (d_state d \<in> {STATE_IDLE, STATE_CONNECT} \<longrightarrow> \<not> inner_active (d_strategy d))"

text \<open>The pools are those of the version of the table that has been loaded.\<close>

definition pools_current :: "fee_state \<Rightarrow> donate \<Rightarrow> bool" where
  "pools_current f d \<longleftrightarrow>
     (d_routesVersion d = version f \<longrightarrow> d_pools d = map pool_of_route (routes (d_target d) f))"

definition same_setup :: "donate \<Rightarrow> donate \<Rightarrow> bool" where
  "same_setup d d' \<longleftrightarrow> d_route d' = d_route d \<and> d_proxy d' = d_proxy d \<and> d_pools d' = d_pools d
     \<and> d_routesVersion d' = d_routesVersion d \<and> d_target d' = d_target d \<and> d_donateTime d' = d_donateTime d
     \<and> d_idleTime d' = d_idleTime d"

lemma same_setup_refl [simp]: "same_setup d d"
  by (simp add: same_setup_def)

lemma same_setup_trans: "same_setup d d' \<Longrightarrow> same_setup d' d'' \<Longrightarrow> same_setup d d''"
  by (simp add: same_setup_def)

lemma d_inner_setup: "same_setup d (fst (d_inner e d))"
  by (rule d_inner_any [of e d]) (auto simp: same_setup_def set_active_def split: if_splits)

lemma d_inner_ok: "inner_ok d \<Longrightarrow> inner_ok (fst (d_inner e d))"
  using d_inner_setup [of d e] by (simp add: inner_ok_def same_setup_def d_inner_strategy)

lemma d_inner_timer: "timer_ok d \<Longrightarrow> timer_ok (fst (d_inner e d))"
  by (rule d_inner_any [of e d]) (auto simp: timer_ok_def set_active_def)

lemma d_inner_idle: "inner_idle d \<Longrightarrow> inner_idle (fst (d_inner e d))"
proof (rule d_inner_any [of e d])
  fix i
  assume "inner_idle d" and "fst (d_inner e d) = d\<lparr> d_strategy := i \<rparr> \<or> fst (d_inner e d) = set_active (d\<lparr> d_strategy := i \<rparr>)"
  then show ?thesis using d_inner_active [of d e] by (auto simp: inner_idle_def set_active_def split: if_splits)
qed

section \<open>Connecting\<close>

lemma createStrategy_frame:
  obtains i where "fst (createStrategy d) = d\<lparr> d_strategy := i \<rparr>" "\<not> inner_active i" "inner_index i = 0"
    "d_pools d \<noteq> [] \<longrightarrow> inner_pools i = d_pools d \<and> inner_count i = length (d_pools d)"
    "heard (snd (createStrategy d)) = []"
proof -
  let ?i = "if length (d_pools d) > 1 then InnerFailover (d_pools d) (failover_new (length (d_pools d)) 2)
    else InnerSingle (hd (d_pools d)) single_new"
  have "fst (createStrategy d) = d\<lparr> d_strategy := ?i \<rparr>"
    by (cases "d_mainProxy d") (simp_all add: createStrategy_def Let_def d_inner_quiet inner_step_same)
  moreover have "\<not> inner_active ?i" "inner_index ?i = 0" by (simp_all add: inner_active_def failover_new_def fo_isActive_def)
  moreover have "inner_pools ?i = d_pools d \<and> inner_count ?i = length (d_pools d)" if "d_pools d \<noteq> []"
    using that by (cases "d_pools d") (auto simp: failover_new_def)
  moreover have "heard (snd (createStrategy d)) = []"
    by (cases "d_mainProxy d") (simp_all add: createStrategy_def Let_def d_inner_proxy)
  ultimately show thesis using that by blast
qed

lemma loadRoutes_frame:
  "d_pools (loadRoutes f d) = map pool_of_route (routes (d_target d) f)" "d_routesVersion (loadRoutes f d) = version f"
  "d_route (loadRoutes f d) = d_route d" "d_proxy (loadRoutes f d) = d_proxy d" "d_target (loadRoutes f d) = d_target d"
  "d_state (loadRoutes f d) = d_state d" "d_timer (loadRoutes f d) = d_timer d" "d_now (loadRoutes f d) = d_now d"
  "d_donateTime (loadRoutes f d) = d_donateTime d" "d_idleTime (loadRoutes f d) = d_idleTime d"
  by (simp_all add: loadRoutes_def Let_def split: list.split)

text \<open>After \<open>refreshRoutes\<close> the pools are the current routes, if they were those of their version.\<close>

lemma refreshRoutes_spec:
  assumes "route_mode d" and "fee_inv f" and "pools_current f d" and "inner_ok d"
  shows "route_mode (fst (refreshRoutes f d))" and "d_routesVersion (fst (refreshRoutes f d)) = version f"
    and "d_pools (fst (refreshRoutes f d)) = map pool_of_route (routes (d_target d) f)"
    and "d_target (fst (refreshRoutes f d)) = d_target d" and "d_state (fst (refreshRoutes f d)) = d_state d"
    and "d_timer (fst (refreshRoutes f d)) = d_timer d" and "d_now (fst (refreshRoutes f d)) = d_now d"
    and "d_donateTime (fst (refreshRoutes f d)) = d_donateTime d" and "d_idleTime (fst (refreshRoutes f d)) = d_idleTime d"
    and "inner_active (d_strategy (fst (refreshRoutes f d))) \<Longrightarrow> inner_active (d_strategy d)"
    and "inner_ok (fst (refreshRoutes f d))" and "heard (snd (refreshRoutes f d)) = []"
    and "inner_index (d_strategy (fst (refreshRoutes f d))) =
      (if d_routesVersion d = version f then inner_index (d_strategy d) else 0)"
proof -
  let ?d = "fst (refreshRoutes f d)"
  have ne: "routes (d_target d) f \<noteq> []" using fee.routes_nonempty [OF assms(2)] .
  have "route_mode ?d \<and> d_routesVersion ?d = version f \<and> d_pools ?d = map pool_of_route (routes (d_target d) f)
    \<and> d_target ?d = d_target d \<and> d_state ?d = d_state d \<and> d_timer ?d = d_timer d \<and> d_now ?d = d_now d
    \<and> d_donateTime ?d = d_donateTime d \<and> d_idleTime ?d = d_idleTime d
    \<and> (inner_active (d_strategy ?d) \<longrightarrow> inner_active (d_strategy d)) \<and> inner_ok ?d \<and> heard (snd (refreshRoutes f d)) = []
    \<and> inner_index (d_strategy ?d) = (if d_routesVersion d = version f then inner_index (d_strategy d) else 0)"
  proof (cases "d_routesVersion d = version f")
    case True
    then show ?thesis using assms by (simp add: refreshRoutes_def pools_current_def)
  next
    case False
    obtain i where "fst (createStrategy (loadRoutes f d)) = (loadRoutes f d)\<lparr> d_strategy := i \<rparr>" "\<not> inner_active i"
      "inner_index i = 0" "d_pools (loadRoutes f d) \<noteq> [] \<longrightarrow> inner_pools i = d_pools (loadRoutes f d)
        \<and> inner_count i = length (d_pools (loadRoutes f d))" "heard (snd (createStrategy (loadRoutes f d))) = []"
      by (rule createStrategy_frame)
    then show ?thesis
      using False assms ne by (simp add: refreshRoutes_def route_mode_def loadRoutes_frame inner_ok_def Let_def)
  qed
  then show "route_mode ?d" "d_routesVersion ?d = version f" "d_pools ?d = map pool_of_route (routes (d_target d) f)"
    "d_target ?d = d_target d" "d_state ?d = d_state d" "d_timer ?d = d_timer d" "d_now ?d = d_now d"
    "d_donateTime ?d = d_donateTime d" "d_idleTime ?d = d_idleTime d"
    "inner_active (d_strategy ?d) \<Longrightarrow> inner_active (d_strategy d)" "inner_ok ?d" "heard (snd (refreshRoutes f d)) = []"
    "inner_index (d_strategy ?d) = (if d_routesVersion d = version f then inner_index (d_strategy d) else 0)" by simp_all
qed

lemma d_connect_route: "d_route d \<Longrightarrow> fst (d_connect env d) = d\<lparr> d_proxy := False \<rparr>"
  by (simp add: d_connect_def d_inner_quiet inner_step_same)

lemma d_connect_out:
  "d_route d \<Longrightarrow> d_strategy d \<noteq> InnerNone \<Longrightarrow> snd (d_connect env d) = [Client (ClientConnect (inner_index (d_strategy d)))]"
  by (simp add: d_connect_def d_inner_connect)

lemma inner_ok_some: "inner_ok d \<Longrightarrow> route_mode d \<Longrightarrow> d_strategy d \<noteq> InnerNone"
  by (auto simp: inner_ok_def route_mode_def)

lemma setState_connect:
  assumes "route_mode d" and "fee_inv f" and "pools_current f d" and "d_state d \<noteq> STATE_CONNECT" and "inner_ok d"
    and "setState f env STATE_CONNECT d = (d', out)"
  shows "route_mode d'" "d_routesVersion d' = version f" "d_pools d' = map pool_of_route (routes (d_target d) f)"
    "d_target d' = d_target d" "d_state d' = STATE_CONNECT" "d_timer d' = d_timer d" "d_now d' = d_now d"
    "d_donateTime d' = d_donateTime d" "d_idleTime d' = d_idleTime d"
    "inner_active (d_strategy d') \<Longrightarrow> inner_active (d_strategy d)" "inner_ok d'"
    "inner_index (d_strategy d') = (if d_routesVersion d = version f then inner_index (d_strategy d) else 0)"
    "\<exists>before. out = before @ [Client (ClientConnect (inner_index (d_strategy d')))] \<and> heard before = []"
proof -
  let ?d = "d\<lparr> d_state := STATE_CONNECT \<rparr>"
  have "route_mode ?d" "pools_current f ?d" "inner_ok ?d"
    using assms(1,3,5) by (simp_all add: route_mode_def pools_current_def inner_ok_def)
  note r = refreshRoutes_spec [OF this(1) assms(2) this(2,3)]
  have "d_route (fst (refreshRoutes f ?d))" using r(1) by (simp add: route_mode_def)
  then have e: "d' = (fst (refreshRoutes f ?d))\<lparr> d_proxy := False \<rparr>"
    and o: "out = snd (refreshRoutes f ?d) @ [Client (ClientConnect (inner_index (d_strategy (fst (refreshRoutes f ?d)))))]"
    using assms(4,6) inner_ok_some [OF r(11,1)] by (auto simp: setState_def split_beta Let_def d_connect_route d_connect_out)
  show "route_mode d'" "d_routesVersion d' = version f" "d_pools d' = map pool_of_route (routes (d_target d) f)"
    "d_target d' = d_target d" "d_state d' = STATE_CONNECT" "d_timer d' = d_timer d" "d_now d' = d_now d"
    "d_donateTime d' = d_donateTime d" "d_idleTime d' = d_idleTime d"
    "inner_active (d_strategy d') \<Longrightarrow> inner_active (d_strategy d)" "inner_ok d'"
    "inner_index (d_strategy d') = (if d_routesVersion d = version f then inner_index (d_strategy d) else 0)"
    using r unfolding e by (simp_all add: route_mode_def inner_ok_def)
  show "\<exists>before. out = before @ [Client (ClientConnect (inner_index (d_strategy d')))] \<and> heard before = []"
    using r(12) unfolding o e by auto
qed

lemma setState_idle:
  assumes "\<not> d_proxy d" and "d_state d \<notin> {STATE_IDLE, STATE_CONNECT}"
  shows "\<exists>i. fst (setState f env STATE_IDLE d) = d\<lparr> d_state := STATE_IDLE, d_strategy := i,
    d_timer := Some (if d_state d = STATE_NEW then d_random (d_idleTime d) (1 / 2) (3 / 2) (e_rand env)
      else d_random (d_idleTime d) (4 / 5) (6 / 5) (e_rand env)) \<rparr>
    \<and> (inner_active i \<longrightarrow> d_state d = STATE_NEW \<and> inner_active (d_strategy d))
    \<and> inner_pools i = inner_pools (d_strategy d) \<and> inner_count i = inner_count (d_strategy d)"
proof (cases "d_state d = STATE_NEW")
  case True
  then show ?thesis by (auto simp: setState_def d_idle_def intro!: exI [of _ "d_strategy d"])
next
  case False
  let ?d = "d\<lparr> d_state := STATE_IDLE \<rparr>"
  have "fst (d_inner Stop ?d) = ?d\<lparr> d_strategy := fst (inner_step Stop (d_strategy d)) \<rparr>"
    by (simp add: d_inner_quiet)
  then show ?thesis using assms False inner_step_stop
    by (auto simp: setState_def d_idle_def split_beta Let_def intro!: exI [of _ "fst (inner_step Stop (d_strategy d))"])
qed

section \<open>Steps\<close>

lemma d_setProxy_frame: obtains i where "fst (d_setProxy proxy d) = d\<lparr> d_mainProxy := proxy, d_strategy := i \<rparr>"
  by (auto simp: d_setProxy_def d_inner_quiet)

lemma d_update_frame:
  assumes "d_route d"
  shows "same_setup d (fst (d_update proxy algo diff height seed d))"
    and "d_state (fst (d_update proxy algo diff height seed d)) = d_state d"
    and "d_timer (fst (d_update proxy algo diff height seed d)) = d_timer d"
proof -
  obtain i where "fst (d_setProxy proxy d) = d\<lparr> d_mainProxy := proxy, d_strategy := i \<rparr>" by (rule d_setProxy_frame)
  then show "same_setup d (fst (d_update proxy algo diff height seed d))"
    "d_state (fst (d_update proxy algo diff height seed d)) = d_state d"
    "d_timer (fst (d_update proxy algo diff height seed d)) = d_timer d"
    using assms by (simp_all add: d_update_def split_beta Let_def same_setup_def)
qed

text \<open>A step either keeps the setup or connects with the current routes.\<close>

definition connected_anew :: "fee_state \<Rightarrow> donate \<Rightarrow> donate \<Rightarrow> bool" where
  "connected_anew f d d' \<longleftrightarrow> d_state d' = STATE_CONNECT \<and> route_mode d' \<and> d_routesVersion d' = version f
     \<and> d_pools d' = map pool_of_route (routes (d_target d) f) \<and> d_target d' = d_target d
     \<and> d_donateTime d' = d_donateTime d \<and> d_idleTime d' = d_idleTime d"

lemma d_onTimer_setup:
  assumes "route_mode d" and "fee_inv f" and "pools_current f d" and "timer_ok d" and "d_timer d \<noteq> None" and "inner_ok d"
    and "d' = fst (d_onTimer f env d)"
  shows "timer_ok d'" and "if d_state d = STATE_ACTIVE then same_setup d d' \<and> d_state d' = STATE_WAIT else connected_anew f d d'"
proof -
  let ?d = "d\<lparr> d_timer := None \<rparr>"
  obtain t where t: "d_timer d = Some t" using assms(5) by auto
  have st: "d_state d \<in> {STATE_IDLE, STATE_ACTIVE}" using assms(4,5) by (simp add: timer_ok_def)
  have "timer_ok d' \<and> (if d_state d = STATE_ACTIVE then same_setup d d' \<and> d_state d' = STATE_WAIT else connected_anew f d d')"
  proof (cases "d_state d = STATE_ACTIVE")
    case True
    then show ?thesis using t assms(7) by (simp add: d_onTimer_def d_isActive_def setState_def Let_def timer_ok_def same_setup_def)
  next
    case False
    have "route_mode ?d" "pools_current f ?d" "d_state ?d \<noteq> STATE_CONNECT" "inner_ok ?d"
      using assms(1,3,6) st by (auto simp: route_mode_def pools_current_def inner_ok_def)
    moreover have "setState f env STATE_CONNECT ?d = (d', snd (setState f env STATE_CONNECT ?d))"
      using t assms(7) False by (simp add: d_onTimer_def d_isActive_def Let_def)
    ultimately have "route_mode d'" "d_routesVersion d' = version f" "d_pools d' = map pool_of_route (routes (d_target d) f)"
      "d_target d' = d_target d" "d_state d' = STATE_CONNECT" "d_timer d' = None"
      "d_donateTime d' = d_donateTime d" "d_idleTime d' = d_idleTime d"
      using setState_connect [OF _ assms(2), of ?d env d' "snd (setState f env STATE_CONNECT ?d)"] by simp_all
    with False show ?thesis by (simp add: connected_anew_def timer_ok_def)
  qed
  then show "timer_ok d'" "if d_state d = STATE_ACTIVE then same_setup d d' \<and> d_state d' = STATE_WAIT else connected_anew f d d'"
    by blast+
qed

lemma d_tick_setup:
  assumes "\<not> d_proxy d"
  shows "same_setup d (fst (d_tick f env now d))" and "timer_ok d \<Longrightarrow> timer_ok (fst (d_tick f env now d))"
proof -
  obtain i where i: "fst (d_inner (STick now) (d\<lparr> d_now := now \<rparr>)) = d\<lparr> d_now := now, d_strategy := i \<rparr>"
    by (simp add: d_inner_quiet)
  let ?d = "d\<lparr> d_now := now, d_strategy := i \<rparr>"
  have "same_setup d (fst (d_tick f env now d)) \<and> (timer_ok d \<longrightarrow> timer_ok (fst (d_tick f env now d)))"
  proof (cases "d_state d = STATE_WAIT \<and> now > d_timestamp d")
    case True
    obtain k where "fst (setState f env STATE_IDLE ?d) = ?d\<lparr> d_state := STATE_IDLE, d_strategy := k,
        d_timer := Some (d_random (d_idleTime d) (4 / 5) (6 / 5) (e_rand env)) \<rparr>"
      using setState_idle [of ?d f env] assms True by auto
    then show ?thesis using True i by (simp add: d_tick_def split_beta Let_def same_setup_def timer_ok_def)
  next
    case False
    then show ?thesis using i by (auto simp: d_tick_def split_beta Let_def same_setup_def timer_ok_def)
  qed
  then show "same_setup d (fst (d_tick f env now d))" "timer_ok d \<Longrightarrow> timer_ok (fst (d_tick f env now d))" by blast+
qed

lemma d_step_setup:
  assumes "route_mode d" and "fee_inv f" and "pools_current f d" and "d' = fst (d_step f env e d)"
    and "timer_ok d \<or> e \<noteq> DTimer" and "inner_ok d"
  shows "same_setup d d' \<or> connected_anew f d d'"
proof (cases e)
  case DTimer
  then show ?thesis
    using assms d_onTimer_setup(2) [OF assms(1-3), of "fst (d_onTimer f env d)" env]
    by (cases "d_timer d = None") (auto simp: d_onTimer_def same_setup_def split: if_splits)
next
  case (DTick now)
  then show ?thesis using assms d_tick_setup(1) by (simp add: route_mode_def)
next
  case (DUpdate proxy algo diff height seed)
  then show ?thesis using assms d_update_frame(1) by (simp add: route_mode_def)
next
  case DStop
  have "same_setup d (d\<lparr> d_timer := None \<rparr>)" by (simp add: same_setup_def)
  then show ?thesis using DStop assms d_inner_setup same_setup_trans by (auto simp: d_stop_def)
qed (use assms d_inner_setup in \<open>auto simp: route_mode_def d_submit_def\<close>)

lemma d_step_timer:
  assumes "route_mode d" and "fee_inv f" and "pools_current f d" and "timer_ok d" and "e \<noteq> DStop" and "inner_ok d"
  shows "timer_ok (fst (d_step f env e d))"
proof (cases e)
  case DTimer
  then show ?thesis
    using assms d_onTimer_setup(1) [OF assms(1-4)] by (cases "d_timer d = None") (simp_all add: d_onTimer_def)
next
  case (DTick now)
  then show ?thesis using assms d_tick_setup(2) by (simp add: route_mode_def)
next
  case (DUpdate proxy algo diff height seed)
  then show ?thesis using assms d_update_frame(2,3) by (simp add: route_mode_def timer_ok_def)
qed (use assms d_inner_timer in \<open>auto simp: route_mode_def d_submit_def\<close>)

lemma d_onTimer_idle:
  assumes "route_mode d" and "fee_inv f" and "pools_current f d" and "timer_ok d" and "inner_idle d" and "inner_ok d"
  shows "inner_idle (fst (d_onTimer f env d))"
proof (cases "d_timer d")
  case None
  then show ?thesis using assms(5) by (simp add: d_onTimer_def)
next
  case (Some t)
  let ?d = "d\<lparr> d_timer := None \<rparr>"
  show ?thesis
  proof (cases "d_state d = STATE_ACTIVE")
    case True
    then show ?thesis using Some by (simp add: d_onTimer_def d_isActive_def setState_def Let_def inner_idle_def)
  next
    case False
    then have st: "d_state d = STATE_IDLE" using assms(4) Some by (simp add: timer_ok_def)
    have "route_mode ?d" "pools_current f ?d" "d_state ?d \<noteq> STATE_CONNECT" "inner_ok ?d"
      using assms(1,3,6) st by (auto simp: route_mode_def pools_current_def inner_ok_def)
    from setState_connect(10) [OF this(1) assms(2) this(2-4) prod.collapse [symmetric], of env] show ?thesis
      using assms(5) st Some by (auto simp: d_onTimer_def d_isActive_def Let_def inner_idle_def)
  qed
qed

lemma d_tick_idle:
  assumes "\<not> d_proxy d" and "inner_idle d"
  shows "inner_idle (fst (d_tick f env now d))"
proof -
  let ?d = "d\<lparr> d_now := now \<rparr>"
  have i: "fst (d_inner (STick now) ?d) = ?d" by (simp add: d_inner_quiet inner_step_same)
  show ?thesis
  proof (cases "d_state d = STATE_WAIT \<and> now > d_timestamp d")
    case True
    then show ?thesis
      using setState_idle [of ?d f env] assms(1) i by (auto simp: d_tick_def split_beta Let_def inner_idle_def)
  next
    case False
    then show ?thesis using i assms(2) by (auto simp: d_tick_def split_beta Let_def inner_idle_def)
  qed
qed

lemma d_step_idle:
  assumes "route_mode d" and "fee_inv f" and "pools_current f d" and "timer_ok d" and "inner_idle d" and "e \<noteq> DStop"
    and "inner_ok d"
  shows "inner_idle (fst (d_step f env e d))"
proof (cases e)
  case (DUpdate proxy algo diff height seed)
  have "fst (d_setProxy proxy d) = d\<lparr> d_mainProxy := proxy \<rparr>" by (simp add: d_setProxy_def d_inner_quiet inner_step_same)
  then show ?thesis using DUpdate assms by (simp add: d_update_def route_mode_def split_beta Let_def inner_idle_def)
qed (use assms d_onTimer_idle d_tick_idle d_inner_idle in \<open>auto simp: route_mode_def d_submit_def\<close>)

text \<open>The timer in the idle state.\<close>

lemma d_onTimer_connects:
  assumes "fee_inv f" and "route_mode d" and "timer_ok d" and "pools_current f d" and "inner_ok d"
    and "d_state d = STATE_IDLE" and "d_step f env DTimer d = (d', out)"
  shows "route_mode d'" "d_routesVersion d' = version f" "d_pools d' = map pool_of_route (routes (d_target d) f)"
    "d_state d' = STATE_CONNECT" "d_now d' = d_now d" "d_donateTime d' = d_donateTime d" "d_idleTime d' = d_idleTime d"
    "inner_active (d_strategy d') \<Longrightarrow> inner_active (d_strategy d)" "inner_ok d'"
    "inner_index (d_strategy d') = (if d_routesVersion d = version f then inner_index (d_strategy d) else 0)"
    "\<exists>before. out = before @ [Client (ClientConnect (inner_index (d_strategy d')))] \<and> heard before = []"
proof -
  let ?d = "d\<lparr> d_timer := None \<rparr>"
  obtain t where "d_timer d = Some t" using assms(3,6) by (auto simp: timer_ok_def)
  then have e: "setState f env STATE_CONNECT ?d = (d', out)"
    using assms(6,7) by (simp add: d_onTimer_def d_isActive_def Let_def)
  have "route_mode ?d" "pools_current f ?d" "d_state ?d \<noteq> STATE_CONNECT" "inner_ok ?d"
    using assms(2,4-6) by (simp_all add: route_mode_def pools_current_def inner_ok_def)
  note c = setState_connect [OF this(1) assms(1) this(2-4) e]
  show "route_mode d'" "d_routesVersion d' = version f" "d_pools d' = map pool_of_route (routes (d_target d) f)"
    "d_state d' = STATE_CONNECT" "d_now d' = d_now d" "d_donateTime d' = d_donateTime d" "d_idleTime d' = d_idleTime d"
    "inner_active (d_strategy d') \<Longrightarrow> inner_active (d_strategy d)" "inner_ok d'"
    "inner_index (d_strategy d') = (if d_routesVersion d = version f then inner_index (d_strategy d) else 0)"
    "\<exists>before. out = before @ [Client (ClientConnect (inner_index (d_strategy d')))] \<and> heard before = []"
    using c by simp_all
qed

lemma d_onTimer_inner_ok:
  assumes "route_mode d" and "fee_inv f" and "pools_current f d" and "timer_ok d" and "inner_ok d"
  shows "inner_ok (fst (d_onTimer f env d))"
proof (cases "d_timer d")
  case (Some t)
  let ?d = "d\<lparr> d_timer := None \<rparr>"
  show ?thesis
  proof (cases "d_state d = STATE_ACTIVE")
    case True
    then show ?thesis
      using Some assms(5) by (simp add: d_onTimer_def d_isActive_def setState_def Let_def inner_ok_def)
  next
    case False
    then have st: "d_state d = STATE_IDLE" using assms(4) Some by (simp add: timer_ok_def)
    have "route_mode ?d" "pools_current f ?d" "d_state ?d \<noteq> STATE_CONNECT" "inner_ok ?d"
      using assms(1,3,5) st by (auto simp: route_mode_def pools_current_def inner_ok_def)
    from setState_connect(11) [OF this(1) assms(2) this(2-4) prod.collapse [symmetric], of env] show ?thesis
      using False Some by (simp add: d_onTimer_def d_isActive_def Let_def)
  qed
qed (use assms(5) in \<open>simp add: d_onTimer_def\<close>)

lemma d_tick_inner_ok:
  assumes "\<not> d_proxy d" and "inner_ok d"
  shows "inner_ok (fst (d_tick f env now d))"
proof -
  let ?d = "d\<lparr> d_now := now \<rparr>"
  have i: "fst (d_inner (STick now) ?d) = ?d" by (simp add: d_inner_quiet inner_step_same)
  show ?thesis
  proof (cases "d_state d = STATE_WAIT \<and> now > d_timestamp d")
    case True
    then obtain k where "fst (setState f env STATE_IDLE ?d) = ?d\<lparr> d_state := STATE_IDLE, d_strategy := k,
        d_timer := Some (d_random (d_idleTime d) (4 / 5) (6 / 5) (e_rand env)) \<rparr>"
      "inner_pools k = inner_pools (d_strategy d)" "inner_count k = inner_count (d_strategy d)"
      using setState_idle [of ?d f env] assms(1) by auto
    then show ?thesis using True i assms(2) by (simp add: d_tick_def split_beta Let_def inner_ok_def)
  next
    case False
    then show ?thesis using i assms(2) by (auto simp: d_tick_def split_beta Let_def inner_ok_def)
  qed
qed

lemma d_step_inner_ok:
  assumes "route_mode d" and "fee_inv f" and "pools_current f d" and "timer_ok d" and "inner_ok d"
  shows "inner_ok (fst (d_step f env e d))"
proof (cases e)
  case (DUpdate proxy algo diff height seed)
  have "fst (d_setProxy proxy d) = d\<lparr> d_mainProxy := proxy \<rparr>" by (simp add: d_setProxy_def d_inner_quiet inner_step_same)
  then show ?thesis using DUpdate assms by (simp add: d_update_def route_mode_def split_beta Let_def inner_ok_def)
next
  case DStop
  have "inner_ok (d\<lparr> d_timer := None \<rparr>)" using assms(5) by (simp add: inner_ok_def)
  then show ?thesis using DStop d_inner_ok by (simp add: d_stop_def)
qed (use assms d_onTimer_inner_ok d_tick_inner_ok d_inner_ok in \<open>auto simp: route_mode_def d_submit_def\<close>)

section \<open>The table and the strategy\<close>

datatype sys_event = FeeEvent fee_event | DonateEvent denv d_event

fun sys_step ::
  "(string \<Rightarrow> json option) \<Rightarrow> (bytes \<Rightarrow> string \<Rightarrow> string \<Rightarrow> bool) \<Rightarrow> sys_event \<Rightarrow> fee_state \<times> donate
    \<Rightarrow> (fee_state \<times> donate) \<times> d_action list" where
  "sys_step json_parse ed25519_verify (FeeEvent e) (f, d) = ((fee_step json_parse ed25519_verify e f, d), [])"
| "sys_step json_parse ed25519_verify (DonateEvent env e) (f, d) = (case d_step f env e d of (d, out) \<Rightarrow> ((f, d), out))"

text \<open>The version of the table counts the accepted files, and each of them has a larger sequence number.
  So a version that has been loaded never comes back: the version 0 only follows the largest sequence
  number, after which no file is accepted.\<close>

definition ver_ok :: "fee_state \<Rightarrow> u64 \<Rightarrow> bool" where
  "ver_ok f v \<longleftrightarrow> f_sequence f = - 1 \<or> (0 < v \<and> v \<le> f_version f \<and> unat (f_version f) \<le> unat (f_sequence f) + 1)"

lemma version_field [simp]: "version f = f_version f"
  by (simp add: version_def)

lemma minus_one_max: "x < y \<Longrightarrow> x \<noteq> (- 1 :: u64)" "unat x = 2 ^ 64 - 1 \<longleftrightarrow> x = - 1" for x y :: u64
proof -
  show "x < y \<Longrightarrow> x \<noteq> - 1" using not_less [of "- 1" y] by (metis word_order.extremum)
  have "unat (- 1 :: u64) = 2 ^ 64 - 1" by (simp add: unsigned_minus_1_eq_mask mask_eq_exp_minus_1)
  then show "unat x = 2 ^ 64 - 1 \<longleftrightarrow> x = - 1" by (metis word_unat_eq_iff)
qed

lemma ver_accepted:
  assumes "ver_ok f v" and "f_sequence f < f_sequence f'" and "f_version f' = f_version f + 1"
  shows "ver_ok f' v \<and> v \<noteq> f_version f'"
proof -
  have s: "unat (f_sequence f) < unat (f_sequence f')" using assms(2) by (simp add: word_less_nat_alt)
  have v: "0 < unat v" "unat v \<le> unat (f_version f)" "unat (f_version f) \<le> unat (f_sequence f) + 1"
    using assms(1) minus_one_max(1) [OF assms(2)] by (auto simp: ver_ok_def word_less_nat_alt word_le_nat_alt)
  show ?thesis
  proof (cases "unat (f_version f) = 2 ^ 64 - 1")
    case True
    then have "unat (f_sequence f') = 2 ^ 64 - 1" using s v(3) unat_less_64 [of "f_sequence f'"] by linarith
    then have "f_sequence f' = - 1" by (simp only: minus_one_max(2))
    moreover have "f_version f' = 0" using True assms(3) by (simp only: minus_one_max(2)) simp
    ultimately show ?thesis using v(1) by (auto simp: ver_ok_def)
  next
    case False
    then have "unat (f_version f) + 1 < 2 ^ 64" using unat_less_64 [of "f_version f"] by linarith
    then have "unat (f_version f') = unat (f_version f) + 1" unfolding assms(3) by (simp add: unat_word_ariths)
    with s v show ?thesis by (auto simp: ver_ok_def word_less_nat_alt word_le_nat_alt)
  qed
qed

lemma routes_same_table: "same_table f f' \<Longrightarrow> routes t f' = routes t f"
  by (simp add: same_table_def routes_def)

lemma fee_step_versions:
  assumes "ver_ok f v" and "v = f_version f \<longrightarrow> pools = map pool_of_route (routes t f)"
    and "f' = fee_step json_parse ed25519_verify e f"
  shows "ver_ok f' v \<and> (v = f_version f' \<longrightarrow> pools = map pool_of_route (routes t f'))"
proof (rule fee_step_cases [of f json_parse ed25519_verify e])
  assume s: "same_table f (fee_step json_parse ed25519_verify e f)"
  then have "f_version f' = f_version f" "f_sequence f' = f_sequence f" by (simp_all add: same_table_def assms(3))
  then show ?thesis using assms(1,2) routes_same_table [OF s] by (simp add: ver_ok_def assms(3))
next
  fix now steady body s1
  assume a: "apply_file json_parse ed25519_verify now body ((fee_get f)\<lparr> f_busy := False \<rparr>) = Inr s1"
    and e: "fee_step json_parse ed25519_verify e f = s1\<lparr> f_next := steady + kRefreshInterval \<rparr>"
  have "f_sequence f < f_sequence f'" "f_version f' = f_version f + 1"
    using apply_file_table(2,3) [OF a] unfolding assms(3) e by simp_all
  with ver_accepted [OF assms(1)] show ?thesis by blast
qed

lemma ver_reach:
  assumes "fee_reach json_parse ed25519_verify fee_init f"
  shows "ver_ok f (f_version f)"
  using assms
proof induction
  case fee_refl
  show ?case by (simp add: ver_ok_def fee_init_def)
next
  case (fee_next f e)
  let ?f = "fee_step json_parse ed25519_verify e f"
  have "ver_ok ?f (f_version f)"
    using fee_step_versions [OF fee_next.IH, of "map pool_of_route (routes CPU f)" CPU ?f] by simp
  then show ?case by (auto simp: ver_ok_def)
qed

section \<open>Runs\<close>

definition pools_ok :: "donate \<Rightarrow> bool" where
  "pools_ok d \<longleftrightarrow> (\<forall>p\<in>set (d_pools d). \<exists>r. route_ok r \<and> r_target r = d_target d \<and> p = pool_of_route r)"

text \<open>The lengths of the phases follow from the fee in percent.\<close>

definition times_ok :: "u64 \<Rightarrow> donate \<Rightarrow> bool" where
  "times_ok donateLevel d \<longleftrightarrow> d_donateTime d = donateLevel * kFeeUnit \<and> d_idleTime d = (100 - donateLevel) * kFeeUnit"

definition sys_inv :: "u64 \<Rightarrow> fee_state \<times> donate \<Rightarrow> bool" where
  "sys_inv donateLevel s \<longleftrightarrow> (case s of (f, d) \<Rightarrow> fee_inv f \<and> route_mode d \<and> timer_ok d \<and> pools_ok d
     \<and> ver_ok f (d_routesVersion d) \<and> pools_current f d \<and> inner_idle d \<and> times_ok donateLevel d \<and> inner_ok d)"

lemma routes_pools_ok:
  assumes "fee_inv f" and "d_pools d = map pool_of_route (routes (d_target d) f)"
  shows "pools_ok d"
proof -
  have "route_ok r" if "r \<in> set (routes (d_target d) f)" for r
    using that assms(1) by (auto simp: fee_inv_def fee_table_ok_def routes_def list_all_iff)
  then show ?thesis using assms(2) fee.routes_target by (fastforce simp: pools_ok_def)
qed

lemma ver_reload: "ver_ok f v \<Longrightarrow> ver_ok f (f_version f)"
  by (auto simp: ver_ok_def)

lemma sys_step_inv:
  assumes "sys_inv donateLevel s" and "\<And>env. e \<noteq> DonateEvent env DStop"
  shows "sys_inv donateLevel (fst (sys_step json_parse ed25519_verify e s))"
proof (cases s)
  case (Pair f d)
  have inv: "fee_inv f" "route_mode d" "timer_ok d" "pools_ok d" "ver_ok f (d_routesVersion d)" "pools_current f d"
    "inner_idle d" "times_ok donateLevel d" "inner_ok d"
    using assms(1) Pair by (simp_all add: sys_inv_def)
  show ?thesis
  proof (cases e)
    case (FeeEvent fe)
    have "ver_ok (fee_step json_parse ed25519_verify fe f) (d_routesVersion d)"
      "pools_current (fee_step json_parse ed25519_verify fe f) d"
      using fee_step_versions [OF inv(5), of "d_pools d" "d_target d"] inv(6) by (auto simp: pools_current_def)
    then show ?thesis using FeeEvent Pair inv fee_inv_step by (simp add: sys_inv_def)
  next
    case (DonateEvent env de)
    let ?d = "fst (d_step f env de d)"
    have t: "timer_ok ?d" "inner_idle ?d" "inner_ok ?d"
      using assms(2) DonateEvent inv by (auto intro!: d_step_timer d_step_idle d_step_inner_ok)
    have "same_setup d ?d \<or> connected_anew f d ?d" using inv by (intro d_step_setup) auto
    then have "route_mode ?d \<and> pools_ok ?d \<and> ver_ok f (d_routesVersion ?d) \<and> pools_current f ?d
        \<and> times_ok donateLevel ?d"
    proof
      assume "same_setup d ?d"
      then show ?thesis using inv by (auto simp: same_setup_def route_mode_def pools_ok_def pools_current_def times_ok_def)
    next
      assume c: "connected_anew f d ?d"
      then have "pools_ok ?d" using inv(1) by (intro routes_pools_ok) (simp_all add: connected_anew_def)
      with c ver_reload [OF inv(5)] inv(8) show ?thesis by (simp add: connected_anew_def pools_current_def times_ok_def)
    qed
    then show ?thesis using DonateEvent Pair inv(1) t by (simp add: sys_inv_def split_beta)
  qed
qed

lemma sys_run_inv:
  "sys_inv donateLevel s \<Longrightarrow> (\<And>env. DonateEvent env DStop \<notin> set es) \<Longrightarrow> sys_inv donateLevel (fst (s_run (sys_step json_parse ed25519_verify) es s))"
proof (induction es arbitrary: s)
  case (Cons e es)
  have "sys_inv donateLevel (fst (sys_step json_parse ed25519_verify e s))" using Cons.prems by (intro sys_step_inv) auto
  with Cons show ?case by (auto simp: split_beta)
qed simp

text \<open>The constructor.\<close>

lemma donate_new_spec:
  assumes "fee_inv f" and "d = fst (donate_new donateLevel userId f env)"
  shows "route_mode d" "d_state d = STATE_IDLE" "d_target d = target f" "d_routesVersion d = f_version f"
    "d_pools d = map pool_of_route (routes (target f) f)" "d_donateTime d = donateLevel * kFeeUnit"
    "d_idleTime d = (100 - donateLevel) * kFeeUnit"
    "d_timer d = Some (d_random ((100 - donateLevel) * kFeeUnit) (1 / 2) (3 / 2) (e_rand env))"
    "\<not> inner_active (d_strategy d)" "d_now d = 0" "inner_ok d"
proof -
  define d0 where "d0 = \<lparr> d_state = STATE_NEW, d_route = True, d_target = target f, d_routesVersion = 0, d_pools = [],
            d_strategy = InnerNone, d_mainProxy = None, d_proxy = False, d_tls = False,
            d_algorithm = INVALID, d_donateTime = donateLevel * kFeeUnit, d_idleTime = (100 - donateLevel) * kFeeUnit,
            d_timer = None, d_now = 0, d_timestamp = 0, d_diff = 0, d_height = 0, d_seed = [] \<rparr>"
  let ?d1 = "loadRoutes f d0"
  have m: "mainRoute f \<noteq> None" using fee.main_exists [OF assms(1)] by auto
  obtain i where i: "fst (createStrategy ?d1) = ?d1\<lparr> d_strategy := i \<rparr>" "\<not> inner_active i"
    "d_pools ?d1 \<noteq> [] \<longrightarrow> inner_pools i = d_pools ?d1 \<and> inner_count i = length (d_pools ?d1)"
    by (rule createStrategy_frame)
  let ?d2 = "?d1\<lparr> d_strategy := i \<rparr>"
  have new: "\<not> d_proxy ?d2" "d_state ?d2 = STATE_NEW" "d_idleTime ?d2 = (100 - donateLevel) * kFeeUnit"
    by (simp_all add: loadRoutes_frame d0_def)
  obtain k where k: "fst (setState f env STATE_IDLE ?d2) = ?d2\<lparr> d_state := STATE_IDLE, d_strategy := k,
      d_timer := Some (d_random ((100 - donateLevel) * kFeeUnit) (1 / 2) (3 / 2) (e_rand env)) \<rparr>"
    "inner_active k \<longrightarrow> inner_active i" "inner_pools k = inner_pools i" "inner_count k = inner_count i"
    using setState_idle [of ?d2 f env] new by auto
  have "d = fst (setState f env STATE_IDLE (fst (createStrategy ?d1)))"
    using m by (simp add: assms(2) donate_new_def Let_def split_beta d0_def)
  then have d: "d = ?d2\<lparr> d_state := STATE_IDLE, d_strategy := k,
      d_timer := Some (d_random ((100 - donateLevel) * kFeeUnit) (1 / 2) (3 / 2) (e_rand env)) \<rparr>"
    by (simp only: i(1) k(1))
  show "route_mode d" "d_state d = STATE_IDLE" "d_target d = target f" "d_routesVersion d = f_version f"
    "d_pools d = map pool_of_route (routes (target f) f)" "d_donateTime d = donateLevel * kFeeUnit"
    "d_idleTime d = (100 - donateLevel) * kFeeUnit"
    "d_timer d = Some (d_random ((100 - donateLevel) * kFeeUnit) (1 / 2) (3 / 2) (e_rand env))"
    "\<not> inner_active (d_strategy d)" "d_now d = 0" "inner_ok d"
    using i(2,3) k(2-4) fee.routes_nonempty [OF assms(1)] unfolding d
    by (simp_all add: loadRoutes_frame route_mode_def inner_ok_def) (simp_all add: d0_def)
qed

lemma sys_start_inv:
  assumes "fee_reach json_parse ed25519_verify fee_init f"
  shows "sys_inv donateLevel (f, fst (donate_new donateLevel userId f env))"
proof -
  let ?d = "fst (donate_new donateLevel userId f env)"
  have inv: "fee_inv f" using fee_inv_reach [OF assms fee_inv_init] .
  note d = donate_new_spec [OF inv refl, of donateLevel userId env]
  have "pools_ok ?d" using inv by (rule routes_pools_ok) (simp add: d(3,5))
  then show ?thesis using inv d ver_reach [OF assms]
    by (simp add: sys_inv_def timer_ok_def pools_current_def inner_idle_def times_ok_def)
qed

lemma sys_reach_inv:
  assumes "fee_reach json_parse ed25519_verify fee_init f0" and "\<And>env. DonateEvent env DStop \<notin> set es"
    and "fst (s_run (sys_step json_parse ed25519_verify) es (f0, fst (donate_new donateLevel userId f0 env0))) = (f, d)"
  shows "sys_inv donateLevel (f, d)"
  using sys_run_inv [OF sys_start_inv [OF assms(1)] assms(2)] unfolding assms(3) [symmetric] by blast

text \<open>The pools come from a state of the table that the run has been through, with its version.\<close>

definition loaded ::
  "(string \<Rightarrow> json option) \<Rightarrow> (bytes \<Rightarrow> string \<Rightarrow> string \<Rightarrow> bool) \<Rightarrow> fee_state \<times> donate \<Rightarrow> bool" where
  "loaded json_parse ed25519_verify s \<longleftrightarrow> (case s of (f, d) \<Rightarrow> fee_reach json_parse ed25519_verify fee_init f
     \<and> (\<exists>g. fee_reach json_parse ed25519_verify fee_init g \<and> fee_reach json_parse ed25519_verify g f
          \<and> d_routesVersion d = version g \<and> d_pools d = map pool_of_route (routes (d_target d) g)))"

lemma loaded_step:
  assumes "sys_inv donateLevel s" and "loaded json_parse ed25519_verify s"
  shows "loaded json_parse ed25519_verify (fst (sys_step json_parse ed25519_verify e s))"
proof (cases s)
  case (Pair f d)
  have inv: "fee_inv f" "route_mode d" "timer_ok d" "pools_current f d" "inner_ok d"
    using assms(1) Pair by (simp_all add: sys_inv_def)
  have f: "fee_reach json_parse ed25519_verify fee_init f" using assms(2) Pair by (simp add: loaded_def)
  show ?thesis
  proof (cases e)
    case (FeeEvent fe)
    then show ?thesis using assms(2) Pair by (auto simp: loaded_def intro: fee_reach.fee_next)
  next
    case (DonateEvent env de)
    let ?d = "fst (d_step f env de d)"
    have "same_setup d ?d \<or> connected_anew f d ?d" using inv by (intro d_step_setup) auto
    then have "loaded json_parse ed25519_verify (f, ?d)"
    proof
      assume "same_setup d ?d"
      then show ?thesis using assms(2) Pair by (simp add: loaded_def same_setup_def)
    next
      assume "connected_anew f d ?d"
      then show ?thesis using f fee_reach.fee_refl by (force simp: loaded_def connected_anew_def)
    qed
    then show ?thesis using DonateEvent Pair by (simp add: split_beta)
  qed
qed

lemma loaded_run:
  "sys_inv donateLevel s \<Longrightarrow> loaded json_parse ed25519_verify s \<Longrightarrow> (\<And>env. DonateEvent env DStop \<notin> set es) \<Longrightarrow>
    loaded json_parse ed25519_verify (fst (s_run (sys_step json_parse ed25519_verify) es s))"
proof (induction es arbitrary: s)
  case (Cons e es)
  have "sys_inv donateLevel (fst (sys_step json_parse ed25519_verify e s))"
    using Cons.prems by (intro sys_step_inv) auto
  with Cons loaded_step [OF Cons.prems(1,2)] show ?case by (auto simp: split_beta)
qed simp

lemma loaded_reach:
  assumes "fee_reach json_parse ed25519_verify fee_init f0" and "\<And>env. DonateEvent env DStop \<notin> set es"
    and "fst (s_run (sys_step json_parse ed25519_verify) es (f0, fst (donate_new donateLevel userId f0 env0))) = (f, d)"
  shows "loaded json_parse ed25519_verify (f, d)"
proof -
  note i = sys_start_inv [OF assms(1), of donateLevel userId env0]
  have "fee_inv f0" using i by (simp add: sys_inv_def)
  note n = donate_new_spec [OF this refl, of donateLevel userId env0]
  have "loaded json_parse ed25519_verify (f0, fst (donate_new donateLevel userId f0 env0))"
    using assms(1) fee_reach.fee_refl n(3-5) by (force simp: loaded_def)
  from loaded_run [OF i this assms(2)] show ?thesis unfolding assms(3) .
qed

section \<open>Properties\<close>

text \<open>C4. The fee is mined on the operator's routes. In every run of the table and the strategy before the strategy is
  stopped, whatever the server, the pools and the timers do, no proxy is used, and the pools of the strategy are the routes
  that the table had for the target in a state that the run has been through, in their order; there is at least
  one, each is a valid route (so never one of the original donation pools), and the inner strategy that connects
  is the one that was constructed for exactly these pools. A timer is running exactly while the strategy idles or mines;
  connecting has no time limit.\<close>

theorem donate_on_operator_routes:
  assumes "fee_reach json_parse ed25519_verify fee_init f0" and "\<And>env. DonateEvent env DStop \<notin> set es"
    and "fst (s_run (sys_step json_parse ed25519_verify) es (f0, fst (donate_new donateLevel userId f0 env0))) = (f, d)"
  shows "\<not> d_proxy d \<and> d_pools d \<noteq> [] \<and> inner_pools (d_strategy d) = d_pools d
    \<and> (\<forall>p\<in>set (d_pools d). \<exists>r. route_ok r \<and> r_target r = d_target d \<and> p = pool_of_route r)
    \<and> (\<exists>g. fee_reach json_parse ed25519_verify fee_init g \<and> fee_reach json_parse ed25519_verify g f
          \<and> d_routesVersion d = version g \<and> d_pools d = map pool_of_route (routes (d_target d) g))
    \<and> (d_timer d \<noteq> None \<longleftrightarrow> d_state d \<in> {STATE_IDLE, STATE_ACTIVE})"
  using sys_reach_inv [OF assms] loaded_reach [OF assms]
  by (simp add: sys_inv_def route_mode_def pools_ok_def inner_ok_def loaded_def timer_ok_def)

text \<open>C5. Updates are taken over: when the strategy, which has not been stopped, has idled, it connects, and then its pools
  are exactly the routes that the fee table has for its target at this moment, in their order, however many updates have been
  accepted since the last connection. The inner strategy that gets the call to connect is the one constructed for these pools:
  a new one, which starts with the first pool, if the table has changed, and else the one that has been in use. The last
  thing that happens is that the client of the pool in turn connects.\<close>

theorem donate_takes_over_updates:
  assumes "fee_reach json_parse ed25519_verify fee_init f0" and "\<And>env. DonateEvent env DStop \<notin> set es"
    and "fst (s_run (sys_step json_parse ed25519_verify) es (f0, fst (donate_new donateLevel userId f0 env0))) = (f, d)"
    and "d_state d = STATE_IDLE" and "d_step f env DTimer d = (d', out)"
  shows "d_state d' = STATE_CONNECT \<and> d_routesVersion d' = version f
    \<and> d_pools d' = map pool_of_route (routes (d_target d) f) \<and> d_pools d' \<noteq> []
    \<and> inner_pools (d_strategy d') = d_pools d'
    \<and> inner_index (d_strategy d') = (if d_routesVersion d = version f then inner_index (d_strategy d) else 0)
    \<and> out \<noteq> [] \<and> last out = Client (ClientConnect (inner_index (d_strategy d')))"
proof -
  have "fee_inv f" "route_mode d" "timer_ok d" "pools_current f d" "inner_ok d"
    using sys_reach_inv [OF assms(1-3)] by (simp_all add: sys_inv_def)
  from d_onTimer_connects [OF this assms(4,5)] show ?thesis by (auto simp: route_mode_def inner_ok_def)
qed

text \<open>The end of the pause.\<close>

lemma d_tick_stops:
  assumes "\<not> d_proxy d" and "d_state d = STATE_WAIT" and "d_timestamp d < now" and "inner_ok d"
    and "d_step f env (DTick now) d = (d', out)"
  shows "d_state d' = STATE_IDLE" "d_timer d' = Some (d_random (d_idleTime d) (4 / 5) (6 / 5) (e_rand env))"
    "heard out = []" "\<forall>k < length (d_pools d'). Client (ClientDisconnect k) \<in> set out"
proof -
  let ?d = "d\<lparr> d_now := now \<rparr>"
  let ?e = "?d\<lparr> d_state := STATE_IDLE \<rparr>"
  have i: "fst (d_inner (STick now) ?d) = ?d" by (simp add: d_inner_quiet inner_step_same)
  have e: "d_proxy (fst (d_inner Stop ?e)) = False" "d_idleTime (fst (d_inner Stop ?e)) = d_idleTime d"
    "d_state (fst (d_inner Stop ?e)) = STATE_IDLE" "d_pools (fst (d_inner Stop ?e)) = d_pools d"
    using assms(1) by (simp_all add: d_inner_quiet)
  have d': "d' = d_idle (4 / 5) (6 / 5) (e_rand env) (fst (d_inner Stop ?e))"
    and out: "out = snd (d_inner (STick now) ?d) @ snd (d_inner Stop ?e)"
    using assms(1,2,3,5) e(1) i by (auto simp: d_tick_def setState_def split_beta Let_def)
  show "d_state d' = STATE_IDLE" "d_timer d' = Some (d_random (d_idleTime d) (4 / 5) (6 / 5) (e_rand env))"
    by (simp_all add: d' d_idle_def e)
  show "heard out = []" by (simp add: out d_inner_tick d_inner_stop)
  show "\<forall>k < length (d_pools d'). Client (ClientDisconnect k) \<in> set out"
    using d_inner_stop [of ?e] assms(4) by (auto simp: out d' d_idle_def e inner_ok_def)
qed

text \<open>The times of a fee in percent.\<close>

lemma fee_times:
  assumes "unat donateLevel \<le> 100"
  shows "unat (donateLevel * kFeeUnit) = unat donateLevel * 60000"
    and "unat ((100 - donateLevel) * kFeeUnit) = (100 - unat donateLevel) * 60000"
proof -
  have "donateLevel \<le> 100" using assms by (simp add: word_le_nat_alt)
  then have "unat (100 - donateLevel) = 100 - unat donateLevel" by (simp add: unat_sub)
  moreover have "unat (x * kFeeUnit) = unat x * 60000" if "unat x \<le> 100" for x
  proof -
    have "unat (x * kFeeUnit) = unat x * unat kFeeUnit mod 2 ^ 64" by (simp add: unat_word_ariths)
    also have "unat kFeeUnit = 60000" by (simp add: kFeeUnit_def)
    finally show ?thesis using that by simp
  qed
  ultimately show "unat (donateLevel * kFeeUnit) = unat donateLevel * 60000"
    "unat ((100 - donateLevel) * kFeeUnit) = (100 - unat donateLevel) * 60000"
    using assms by simp_all
qed

lemma d_random_bounds:
  assumes "0 \<le> r" and "r \<le> 1" and "unat base = 5 * n" and "n < 2 ^ 60"
  shows "4 * n \<le> unat (d_random base (4 / 5) (6 / 5) r)" and "unat (d_random base (4 / 5) (6 / 5) r) \<le> 6 * n"
proof -
  let ?x = "of_int (uint base) * ((6 / 5 - 4 / 5) * r + 4 / 5) :: rat"
  have b: "uint base = 5 * int n" using assms(3) by (simp add: uint_nat)
  have x: "?x = of_int (int n) * (2 * r + 4)" unfolding b by (simp add: field_simps)
  have "of_int (int n) * 4 \<le> ?x" "?x \<le> of_int (int n) * 6"
    unfolding x using assms(1,2) by (intro mult_left_mono; simp)+
  then have f: "4 * int n \<le> \<lfloor>?x\<rfloor>" "\<lfloor>?x\<rfloor> \<le> 6 * int n" by (simp_all add: le_floor_iff floor_le_iff)
  have g: "uint (word_of_int z :: u64) = z" if "0 \<le> z" "z \<le> 6 * int n" for z
    using that assms(4) by (simp add: uint_word_of_int)
  have "uint (d_random base (4 / 5) (6 / 5) r) = \<lfloor>?x\<rfloor>" unfolding d_random_def by (rule g) (use f in linarith)+
  then show "4 * n \<le> unat (d_random base (4 / 5) (6 / 5) r)" "unat (d_random base (4 / 5) (6 / 5) r) \<le> 6 * n"
    using f by (simp_all add: unat_eq_nat_uint)
qed

lemma login_active:
  assumes "\<not> inner_active (d_strategy d)" and "d_state d \<noteq> STATE_ACTIVE" and "d_strategy d \<noteq> InnerNone"
  shows "d_state (fst (d_inner (LoginSuccess c) d)) = STATE_ACTIVE"
    and "d_timer (fst (d_inner (LoginSuccess c) d)) = Some (d_donateTime d)"
    and "d_now (fst (d_inner (LoginSuccess c) d)) = d_now d"
    and "heard (snd (d_inner (LoginSuccess c) d)) = [ListenerActive]"
proof -
  let ?i = "fst (inner_step (LoginSuccess c) (d_strategy d))" and ?out = "snd (inner_step (LoginSuccess c) (d_strategy d))"
  obtain cs where cs: "?out = map ClientDisconnect cs @ [OnActive c]"
  proof (cases "d_strategy d")
    case (InnerFailover pools s)
    then show ?thesis using assms(1) that
      by (auto simp: inner_step_def inner_active_def fo_onLoginSuccess_def fo_isActive_def Let_def split_beta)
  next
    case (InnerSingle pool s)
    then show ?thesis using that [of "[]"] by (simp add: inner_step_def sp_onLoginSuccess_def)
  qed (use assms(3) in simp)
  have "heard (snd (d_inner (LoginSuccess c) d)) = heard (map Client (map ClientDisconnect cs) @ [ListenerActive])"
    using assms(2) by (simp add: d_inner_def split_beta cs s_run_append callbacks_commands list_all_iff d_onActive_def d_isActive_def)
  then show "heard (snd (d_inner (LoginSuccess c) d)) = [ListenerActive]"
    by (simp only: heard_simps heard_commands append.simps)
  have "OnActive c \<in> set ?out" by (simp add: cs)
  then have "fst (d_inner (LoginSuccess c) d) = set_active (d\<lparr> d_strategy := ?i \<rparr>)"
    by (simp add: d_inner_def split_beta callbacks_active)
  then show "d_state (fst (d_inner (LoginSuccess c) d)) = STATE_ACTIVE"
    "d_timer (fst (d_inner (LoginSuccess c) d)) = Some (d_donateTime d)" "d_now (fst (d_inner (LoginSuccess c) d)) = d_now d"
    using assms(2) by (simp_all add: set_active_def)
qed


section \<open>The properties on a concrete run\<close>

text \<open>The update of \<open>FeeTable_Correct\<close> arrives while the strategy idles for the first time.\<close>

definition demo_env :: denv where
  "demo_env = \<lparr> e_rand = 1 / 2, e_proxyDonate = PROXY_DONATE_AUTO, e_mainActive = True, e_extConnect = True, e_extTls = False \<rparr>"

abbreviation demo_donate :: donate where
  "demo_donate \<equiv> fst (donate_new 1 ''user'' fee_init demo_env)"

abbreviation demo_events :: "sys_event list" where
  "demo_events \<equiv> [FeeEvent (Answer 1000 5 200 ''E'')]"

lemma demo_sys: "fst (s_run (sys_step demo_json demo_verify) demo_events (fee_init, demo_donate)) = (demo_state, demo_donate)"
  using demo_step by (simp add: split_beta)

lemma demo_events_run: "DonateEvent env DStop \<notin> set demo_events"
  by simp

lemma demo_donate_idle: "d_state demo_donate = STATE_IDLE" "d_target demo_donate = CPU"
  using donate_new_spec(2,3) [OF fee_inv_init refl] by (simp_all add: target_def fee_get_def fee_init_def)

theorem donate_on_operator_routes_witness: "\<not> d_proxy demo_donate \<and> inner_pools (d_strategy demo_donate) = d_pools demo_donate"
  using donate_on_operator_routes [OF fee_refl demo_events_run demo_sys] by simp

theorem donate_takes_over_updates_witness:
  "map dp_host (inner_pools (d_strategy (fst (d_step demo_state demo_env DTimer demo_donate)))) = [''pool.example.org'']"
proof -
  have "routes CPU demo_state = [demo_parsed]"
    by (simp add: routes_def fee_get_def demo_values merge_routes_def demo_parsed_def usable_def builtin_def route_def)
  moreover have "c_str ''pool.example.org'' = ''pool.example.org''" by (simp add: c_str_def)
  ultimately show ?thesis
    using donate_takes_over_updates [OF fee_refl demo_events_run demo_sys demo_donate_idle(1) prod.collapse [symmetric], of demo_env]
      demo_donate_idle(2)
    by (simp add: pool_of_route_def demo_parsed_def)
qed


end
