(* ===== verification/Nonce.thy ===== *)
theory Nonce
  imports Prelude
begin

text \<open>
  The distribution of nonces to the workers, from \<^verbatim>\<open>src/src/crypto/common/Nonce.h\<close> and
  \<^verbatim>\<open>Nonce.cpp\<close>: two shared counters, a flag and a sequence number per backend, all of them
  atomic. The loop of \<open>next\<close> is a partial function on the option type: \<open>None\<close> would mean
  that it does not return. Workers run it concurrently; \<open>nonce_run\<close> interleaves their atomic
  steps.
\<close>

section \<open>Unaligned access\<close>

text \<open>\<open>readUnaligned\<close> and \<open>writeUnaligned\<close> of a 32 bit integer on a little-endian
  machine (\<^verbatim>\<open>src/src/base/tools/Alignment.h\<close>).\<close>

definition read32 :: "bytes \<Rightarrow> nat \<Rightarrow> u32" where
  "read32 mem p = ucast (mem ! p) OR push_bit 8 (ucast (mem ! (p + 1))) OR push_bit 16 (ucast (mem ! (p + 2)))
     OR push_bit 24 (ucast (mem ! (p + 3)))"

definition write32 :: "bytes \<Rightarrow> nat \<Rightarrow> u32 \<Rightarrow> bytes" where
  "write32 mem p w = mem[p := ucast w, p + 1 := ucast (drop_bit 8 w), p + 2 := ucast (drop_bit 16 w),
     p + 3 := ucast (drop_bit 24 w)]"

section \<open>State and operations\<close>

datatype backend = BACKEND_CPU | BACKEND_OPENCL | BACKEND_CUDA

record nonce_state =
  n_paused :: bool
  n_sequence :: "backend \<Rightarrow> u64"
  n_nonces :: "nat \<Rightarrow> u64"

definition nonce_init :: nonce_state where
  "nonce_init = \<lparr> n_paused = True, n_sequence = (\<lambda>_. 1), n_nonces = (\<lambda>_. 0) \<rparr>"

definition isOutdated :: "backend \<Rightarrow> u64 \<Rightarrow> nonce_state \<Rightarrow> bool" where
  "isOutdated backend sequence s \<longleftrightarrow> n_sequence s backend \<noteq> sequence"

definition nonce_sequence :: "backend \<Rightarrow> nonce_state \<Rightarrow> u64" where
  "nonce_sequence backend s = n_sequence s backend"

definition nonce_pause :: "bool \<Rightarrow> nonce_state \<Rightarrow> nonce_state" where
  "nonce_pause paused s = s\<lparr> n_paused := paused \<rparr>"

definition nonce_reset :: "nat \<Rightarrow> nonce_state \<Rightarrow> nonce_state" where
  "nonce_reset index s = s\<lparr> n_nonces := (n_nonces s)(index := 0) \<rparr>"

definition nonce_stop_backend :: "backend \<Rightarrow> nonce_state \<Rightarrow> nonce_state" where
  "nonce_stop_backend backend s = s\<lparr> n_sequence := (n_sequence s)(backend := 0) \<rparr>"

definition nonce_touch_backend :: "backend \<Rightarrow> nonce_state \<Rightarrow> nonce_state" where
  "nonce_touch_backend backend s = s\<lparr> n_sequence := (n_sequence s)(backend := n_sequence s backend + 1) \<rparr>"

definition nonce_stop :: "nonce_state \<Rightarrow> nonce_state" where
  "nonce_stop s = (nonce_pause False s)\<lparr> n_sequence := (\<lambda>_. 0) \<rparr>"

definition nonce_touch :: "nonce_state \<Rightarrow> nonce_state" where
  "nonce_touch s = s\<lparr> n_sequence := (\<lambda>b. n_sequence s b + 1) \<rparr>"

text \<open>The atomic addition returns the old value.\<close>

definition fetch_add :: "nat \<Rightarrow> u32 \<Rightarrow> nonce_state \<Rightarrow> u64 \<times> nonce_state" where
  "fetch_add index reserveCount s =
     (n_nonces s index, s\<lparr> n_nonces := (n_nonces s)(index := n_nonces s index + ucast reserveCount) \<rparr>)"

text \<open>One pass through the body of the loop: give up, take the counter, or fetch again. The flag
  says whether mining is paused because the nonces are used up.\<close>

datatype next_verdict = GiveUp bool | Take bool | Again

definition next_body :: "u32 \<Rightarrow> u64 \<Rightarrow> u64 \<Rightarrow> next_verdict" where
  "next_body reserveCount msk counter =
     (if msk < counter then GiveUp False
      else if msk - counter \<le> ucast (reserveCount - 1)
      then if msk - counter < ucast (reserveCount - 1) then GiveUp True else Take True
      else if 0xFFFFFFFF - ucast (ucast counter :: u32) < (ucast (reserveCount - 1) :: u64) then Again
      else Take False)"

definition pause_if :: "bool \<Rightarrow> nonce_state \<Rightarrow> nonce_state" where
  "pause_if p s = (if p then nonce_pause True s else s)"

partial_function (option) next_loop ::
  "nat \<Rightarrow> u32 \<Rightarrow> u64 \<Rightarrow> u64 \<Rightarrow> nonce_state \<Rightarrow> (u64 option \<times> nonce_state) option" where
  "next_loop index reserveCount msk counter s =
     (case next_body reserveCount msk counter of
        GiveUp p \<Rightarrow> Some (None, pause_if p s)
      | Take p \<Rightarrow> Some (Some counter, pause_if p s)
      | Again \<Rightarrow> (case fetch_add index reserveCount s of
          (counter, s) \<Rightarrow> next_loop index reserveCount msk counter s))"

definition nonce_write :: "bytes \<Rightarrow> nat \<Rightarrow> u64 \<Rightarrow> u64 \<Rightarrow> bytes" where
  "nonce_write mem p msk counter =
     (let mem = write32 mem p (ucast ((ucast (read32 mem p) AND NOT msk) OR counter))
      in if msk > 0xFFFFFFFF
         then write32 mem (p + 4)
           (ucast ((ucast (read32 mem (p + 4)) AND drop_bit 32 (NOT msk)) OR drop_bit 32 counter))
         else mem)"

text \<open>\<open>Nonce::next\<close> on a nonce at position \<open>p\<close> of a memory.\<close>

definition nonce_next ::
  "nat \<Rightarrow> bytes \<Rightarrow> nat \<Rightarrow> u32 \<Rightarrow> u64 \<Rightarrow> nonce_state \<Rightarrow> (bool \<times> bytes \<times> nonce_state) option" where
  "nonce_next index mem p reserveCount msk0 s =
     (let msk = msk0 AND 0x7FFFFFFFFFFFFFFF
      in if reserveCount = 0 \<or> msk < ucast (reserveCount - 1) then Some (False, mem, s)
         else (case fetch_add index reserveCount s of (counter, s) \<Rightarrow>
           (case next_loop index reserveCount msk counter s of
              None \<Rightarrow> None
            | Some (None, s) \<Rightarrow> Some (False, mem, s)
            | Some (Some counter, s) \<Rightarrow> Some (True, nonce_write mem p msk counter, s))))"

section \<open>Reading back\<close>

text \<open>A 64 bit nonce, which may extend over a 32 bit one and the four bytes behind it.\<close>

definition read64 :: "bytes \<Rightarrow> nat \<Rightarrow> u64" where
  "read64 mem p = ucast (read32 mem p) OR push_bit 32 (ucast (read32 mem (p + 4)))"

lemma write32_length [simp]: "length (write32 mem p w) = length mem"
  by (simp add: write32_def)

lemma read32_write32 [simp]:
  assumes "p + 4 \<le> length mem"
  shows "read32 (write32 mem p w) p = w"
proof (rule bit_word_eqI)
  fix n assume "n < LENGTH(32)"
  then consider "n < 8" | "8 \<le> n" "n < 16" | "16 \<le> n" "n < 24" | "24 \<le> n" "n < 32" by fastforce
  then show "bit (read32 (write32 mem p w) p) n = bit w n"
    using assms by cases (auto simp: read32_def write32_def bit_simps)
qed

lemma read32_write32_other [simp]:
  assumes "p + 4 \<le> q \<or> q + 4 \<le> p"
  shows "read32 (write32 mem p w) q = read32 mem q"
  using assms by (auto simp: read32_def write32_def)

lemma ucast_add_down: "(ucast (x + y) :: u32) = ucast x + ucast y" for x y :: u64
  by (simp add: word_uint_eq_iff uint_word_ariths unsigned_ucast_eq take_bit_eq_mod mod_mod_cancel mod_add_eq)

lemma ucast_of_nat_down: "(ucast (of_nat i :: u64) :: u32) = of_nat i"
  by (simp add: word_uint_eq_iff unsigned_ucast_eq unsigned_of_nat take_bit_eq_mod mod_mod_cancel zmod_int)

lemma high_bits_zero:
  assumes "x \<le> (0xFFFFFFFF :: u64)"
  shows "\<not> bit x (32 + n)"
proof -
  have "unat x < 2 ^ 32" using assms by (simp add: word_le_nat_alt)
  then have "take_bit 32 x = x" by (simp add: word_unat_eq_iff unsigned_take_bit_eq take_bit_nat_eq_self_iff)
  then have "bit x (32 + n) = bit (take_bit 32 x) (32 + n)" by simp
  then show ?thesis by (simp add: bit_simps)
qed

lemma read64_low: "ucast (read64 mem p) = read32 mem p"
  by (rule bit_word_eqI) (auto simp: read64_def bit_simps)

lemma read64_high: "ucast (drop_bit 32 (read64 mem p)) = read32 mem (p + 4)"
  by (rule bit_word_eqI) (auto simp: read64_def bit_simps dest: bit_imp_le_length)

lemma read64_eqI:
  assumes "read32 mem p = ucast w" and "read32 mem (p + 4) = ucast (drop_bit 32 w)"
  shows "read64 mem p = w"
  unfolding read64_def assms by (rule bit_word_eqI) (auto simp: bit_simps)

text \<open>Adding to the low word is adding to the whole when nothing is carried.\<close>

lemma read64_add_low:
  assumes "p + 4 \<le> length mem" and "drop_bit 32 (read64 mem p + of_nat i) = drop_bit 32 (read64 mem p)"
  shows "read64 (write32 mem p (read32 mem p + of_nat i)) p = read64 mem p + of_nat i"
proof (rule read64_eqI)
  show "read32 (write32 mem p (read32 mem p + of_nat i)) p = ucast (read64 mem p + of_nat i)"
    using assms(1) by (simp add: ucast_add_down ucast_of_nat_down read64_low)
  show "read32 (write32 mem p (read32 mem p + of_nat i)) (p + 4) = ucast (drop_bit 32 (read64 mem p + of_nat i))"
    by (simp add: assms(2) read64_high)
qed

lemma nonce_write_read64:
  assumes "p + 8 \<le> length mem" and "k \<le> 63" and "c \<le> mask k"
  shows "read64 (nonce_write mem p (mask k) c) p = (read64 mem p AND NOT (mask k)) OR c"
proof (rule read64_eqI)
  show "read32 (nonce_write mem p (mask k) c) p = ucast ((read64 mem p AND NOT (mask k)) OR c)"
    using assms(1) by (auto simp: nonce_write_def Let_def read64_def bit_simps intro!: bit_word_eqI)
next
  have z: "\<not> bit w (32 + n)" for w :: u32 and n using bit_imp_le_length [of w "32 + n"] by auto
  have "read32 mem (p + 4) = ucast (drop_bit 32 ((read64 mem p AND NOT (mask k)) OR c))" if "mask k \<le> (0xFFFFFFFF :: u64)"
  proof -
    have "\<not> bit (mask k :: u64) (32 + n)" "\<not> bit c (32 + n)" for n
      using high_bits_zero [OF that] high_bits_zero [of c] that assms(3) by auto
    then show ?thesis by (auto simp: read64_def bit_simps z intro!: bit_word_eqI)
  qed
  then show "read32 (nonce_write mem p (mask k) c) (p + 4) = ucast (drop_bit 32 ((read64 mem p AND NOT (mask k)) OR c))"
    using assms(1) by (auto simp: nonce_write_def Let_def read64_def bit_simps z intro!: bit_word_eqI)
qed

section \<open>The body of the loop\<close>

text \<open>The counters and masks as numbers.\<close>

lemma ucast_pred: "r \<noteq> 0 \<Longrightarrow> unat (ucast (r - 1) :: u64) = unat r - 1" for r :: u32
  by (simp add: unat_ucast_up unat_minus_one)

lemma low32_room: "unat (0xFFFFFFFF - ucast (ucast c :: u32) :: u64) = 2 ^ 32 - 1 - unat c mod 2 ^ 32" for c :: u64
proof -
  have "ucast (ucast c :: u32) \<le> (0xFFFFFFFF :: u64)"
    by (simp add: word_le_nat_alt unat_ucast_up unat_low32 del: unsigned_ucast_eq)
  then show ?thesis by (simp add: unat_sub unat_ucast_up unat_low32)
qed

lemma body_cases:
  assumes "r \<noteq> 0"
  shows "next_body r m c = Take p \<Longrightarrow> unat c + unat r \<le> unat m + 1 \<and> (p \<longleftrightarrow> unat m < unat c + unat r)
      \<and> (p \<or> unat c mod 2 ^ 32 + unat r \<le> 2 ^ 32)"
    and "next_body r m c = GiveUp p \<Longrightarrow> unat m + 1 < unat c + unat r \<and> (p \<longleftrightarrow> unat c \<le> unat m)"
    and "next_body r m c = Again \<Longrightarrow> unat c + unat r \<le> unat m"
proof -
  have r: "0 < unat r" using assms by (simp add: unat_gt_0)
  have d: "\<not> m < c \<Longrightarrow> unat (m - c) = unat m - unat c \<and> unat c \<le> unat m"
    by (simp add: unat_sub word_less_nat_alt word_le_nat_alt not_less)
  note defs = next_body_def word_less_nat_alt word_le_nat_alt ucast_pred [OF assms] low32_room
  show "next_body r m c = Take p \<Longrightarrow> unat c + unat r \<le> unat m + 1 \<and> (p \<longleftrightarrow> unat m < unat c + unat r)
      \<and> (p \<or> unat c mod 2 ^ 32 + unat r \<le> 2 ^ 32)"
    "next_body r m c = GiveUp p \<Longrightarrow> unat m + 1 < unat c + unat r \<and> (p \<longleftrightarrow> unat c \<le> unat m)"
    "next_body r m c = Again \<Longrightarrow> unat c + unat r \<le> unat m"
    using d r by (auto simp: defs split: if_splits)
qed

text \<open>The loop returns. It ends with a counter \<open>c'\<close>, not smaller than the first one, that the body
  does not send round again; the shared counter then is just behind the range that starts at \<open>c'\<close>.\<close>

definition loop_result :: "nat \<Rightarrow> u32 \<Rightarrow> u64 \<Rightarrow> u64 \<Rightarrow> nonce_state \<Rightarrow> u64 option \<Rightarrow> nonce_state \<Rightarrow> bool" where
  "loop_result index r m c' s v s' \<longleftrightarrow> n_sequence s' = n_sequence s
     \<and> n_nonces s' = (n_nonces s)(index := c' + ucast r)
     \<and> ((\<exists>p. next_body r m c' = GiveUp p \<and> v = None \<and> n_paused s' = (p \<or> n_paused s))
       \<or> (\<exists>p. next_body r m c' = Take p \<and> v = Some c' \<and> n_paused s' = (p \<or> n_paused s)))"

lemma pause_if_simps [simp]:
  "n_sequence (pause_if p s) = n_sequence s" "n_nonces (pause_if p s) = n_nonces s"
  "n_paused (pause_if p s) = (p \<or> n_paused s)"
  by (simp_all add: pause_if_def nonce_pause_def)

lemma unat_counter: "unat c + unat r < 2 ^ 64 \<Longrightarrow> unat (c + ucast r :: u64) = unat c + unat r" for r :: u32
  by (simp add: unat_word_ariths unat_ucast_up)

lemma next_loop_returns:
  assumes "r \<noteq> 0" and "unat m < 2 ^ 63" and "n_nonces s index = c + ucast r"
  shows "\<exists>v s' c'. next_loop index r m c s = Some (v, s') \<and> unat c \<le> unat c'
    \<and> (unat c \<le> unat m \<longrightarrow> unat c' \<le> unat m) \<and> loop_result index r m c' s v s'"
  using assms(3)
proof (induction "unat m - unat c" arbitrary: c s rule: less_induct)
  case less
  have id: "(n_nonces s)(index := c + ucast r) = n_nonces s" using less(2) by (metis fun_upd_triv)
  show ?case
  proof (cases "next_body r m c")
    case (GiveUp p)
    then show ?thesis
      using id by (intro exI [of _ None] exI [of _ "pause_if p s"] exI [of _ c])
        (auto simp: next_loop.simps loop_result_def)
  next
    case (Take p)
    then show ?thesis
      using id by (intro exI [of _ "Some c"] exI [of _ "pause_if p s"] exI [of _ c])
        (auto simp: next_loop.simps loop_result_def)
  next
    case Again
    let ?s = "s\<lparr> n_nonces := (n_nonces s)(index := c + ucast r + ucast r) \<rparr>"
    have "unat c + unat r \<le> unat m" using body_cases(3) [OF assms(1) Again] .
    then have c: "unat (c + ucast r) = unat c + unat r" "unat c + unat r \<le> unat m"
      using assms(2) by (auto intro!: unat_counter)
    moreover have "0 < unat r" using assms(1) by (simp add: unat_gt_0)
    ultimately have "unat m - unat (c + ucast r) < unat m - unat c" by simp
    from less(1) [OF this, of ?s] obtain v s' c' where *: "next_loop index r m (c + ucast r) ?s = Some (v, s')"
      "unat (c + ucast r) \<le> unat c'" "loop_result index r m c' ?s v s'"
      "unat (c + ucast r) \<le> unat m \<longrightarrow> unat c' \<le> unat m" by auto
    have "next_loop index r m c s = Some (v, s')"
      using *(1) less(2) Again by (subst next_loop.simps) (simp add: fetch_add_def)
    moreover have "loop_result index r m c' s v s'" using *(3) by (simp add: loop_result_def)
    moreover have "unat c \<le> unat c'" "unat c' \<le> unat m" using *(2,4) c by simp_all
    ultimately show ?thesis by blast
  qed
qed

text \<open>\<open>next\<close> after its guard.\<close>

lemma masked_63: "unat (m AND 0x7FFFFFFFFFFFFFFF :: u64) < 2 ^ 63"
proof -
  have "m AND 0x7FFFFFFFFFFFFFFF = take_bit 63 m" by (simp add: take_bit_eq_mask mask_eq_exp_minus_1)
  then show ?thesis by (simp add: take_bit_eq_mod unat_mod)
qed

lemma nonce_next_returns:
  assumes "r \<noteq> 0" and "\<not> (m AND 0x7FFFFFFFFFFFFFFF) < ucast (r - 1)"
  shows "\<exists>v c s'. n_nonces s index \<le> c
    \<and> (n_nonces s index \<le> m AND 0x7FFFFFFFFFFFFFFF \<longrightarrow> c \<le> m AND 0x7FFFFFFFFFFFFFFF) \<and> loop_result index r (m AND 0x7FFFFFFFFFFFFFFF) c s v s'
    \<and> nonce_next index mem p r m s = Some (case v of None \<Rightarrow> (False, mem, s')
        | Some c \<Rightarrow> (True, nonce_write mem p (m AND 0x7FFFFFFFFFFFFFFF) c, s'))"
proof -
  let ?m = "m AND 0x7FFFFFFFFFFFFFFF"
  let ?s = "s\<lparr> n_nonces := (n_nonces s)(index := n_nonces s index + ucast r) \<rparr>"
  obtain v s' c where l: "next_loop index r ?m (n_nonces s index) ?s = Some (v, s')" "unat (n_nonces s index) \<le> unat c"
    "loop_result index r ?m c ?s v s'" "unat (n_nonces s index) \<le> unat ?m \<longrightarrow> unat c \<le> unat ?m"
    using next_loop_returns [OF assms(1) masked_63, of ?s index "n_nonces s index" m] by auto
  then have "loop_result index r ?m c s v s'" by (simp add: loop_result_def)
  moreover have "nonce_next index mem p r m s = Some (case v of None \<Rightarrow> (False, mem, s')
        | Some c \<Rightarrow> (True, nonce_write mem p ?m c, s'))"
    using assms l(1) by (simp add: nonce_next_def Let_def fetch_add_def split: option.split)
  ultimately show ?thesis using l(2,4) unfolding word_le_nat_alt by blast
qed

section \<open>The reserved range\<close>

text \<open>With a mask of \<open>k\<close> ones the counters of a range have the same high word.\<close>

lemma unat_mask: "k \<le> 63 \<Longrightarrow> unat (mask k :: u64) = 2 ^ k - 1"
proof -
  assume "k \<le> 63"
  then have "(2 :: nat) ^ k \<le> 2 ^ 63" by (intro power_increasing) auto
  then have "(2 :: nat) ^ k - 1 < 2 ^ 64" by simp
  moreover have "mask k = (of_nat (2 ^ k - 1) :: u64)" by (simp add: mask_eq_exp_minus_1)
  ultimately show ?thesis by (simp add: unsigned_of_nat take_bit_nat_eq_self_iff del: of_nat_diff)
qed

lemma mod_sum_zero:
  fixes a r n :: nat
  assumes "(a + r) mod n = 0" and "0 < r" and "r < n"
  shows "a mod n + r \<le> n"
proof (rule ccontr)
  assume *: "\<not> a mod n + r \<le> n"
  have "a mod n < n" using assms(2,3) by simp
  then have "a mod n + r - n < n" using assms(3) by linarith
  then have "(a mod n + r) mod n = a mod n + r - n" using * by (simp add: le_mod_geq)
  then show False using * assms(1) by (simp add: mod_add_left_eq)
qed

lemma no_carry_room:
  assumes "next_body r (mask k) c = Take p" and "r \<noteq> 0" and "k \<le> 63"
  shows "unat c mod 2 ^ 32 + unat r \<le> 2 ^ 32" and "unat c + unat r \<le> 2 ^ k"
proof -
  note t = body_cases(1) [OF assms(2,1)]
  show k: "unat c + unat r \<le> 2 ^ k" using t by (simp add: unat_mask [OF assms(3)])
  show "unat c mod 2 ^ 32 + unat r \<le> 2 ^ 32"
  proof (cases p)
    case True
    then have c: "unat c + unat r = 2 ^ k" using t k by (simp add: unat_mask [OF assms(3)])
    show ?thesis
    proof (cases "k \<le> 32")
      case True
      then have "(2 :: nat) ^ k \<le> 2 ^ 32" by (intro power_increasing) auto
      then show ?thesis using c by (metis add_le_mono1 le_trans mod_less_eq_dividend)
    next
      case False
      then have "(unat c + unat r) mod 2 ^ 32 = 0" unfolding c by (intro dvd_imp_mod_0 le_imp_power_dvd) simp
      moreover have "0 < unat r" "unat r < 2 ^ 32" using assms(2) unsigned_less [of r] by (simp_all add: unat_gt_0)
      ultimately show ?thesis by (intro mod_sum_zero) simp_all
    qed
  qed (use t in auto)
qed

lemma div_add_small: "a mod n + i < n \<Longrightarrow> (a + i) div n = a div n" for a i n :: nat
  using div_add1_eq [of a i n] by simp

lemma drop_32_same:
  assumes "unat c mod 2 ^ 32 + i < 2 ^ 32" and "unat c + i < 2 ^ 64"
  shows "drop_bit 32 (c + of_nat i) = drop_bit 32 (c :: u64)"
proof -
  have "unat (c + of_nat i) = unat c + i"
    using assms(2) by (simp add: unat_word_ariths unsigned_of_nat take_bit_eq_mod)
  moreover have "(unat c + i) div 2 ^ 32 = unat c div 2 ^ 32"
    using assms(1) by (rule div_add_small)
  ultimately show ?thesis by (simp add: word_unat_eq_iff drop_bit_eq_div unat_div)
qed

lemma mask_min: "k \<le> 64 \<Longrightarrow> mask k AND 0x7FFFFFFFFFFFFFFF = (mask (min k 63) :: u64)"
proof -
  have m: "(0x7FFFFFFFFFFFFFFF :: u64) = mask 63" by (simp add: mask_eq_exp_minus_1)
  show ?thesis if "k \<le> 64" unfolding m by (auto intro!: bit_word_eqI simp: bit_simps)
qed

lemma nonce_next_taken:
  assumes "nonce_next index mem p r m s = Some (True, mem', s')"
  obtains c q where "r \<noteq> 0" "next_body r (m AND 0x7FFFFFFFFFFFFFFF) c = Take q" "n_nonces s index \<le> c"
    "mem' = nonce_write mem p (m AND 0x7FFFFFFFFFFFFFFF) c" "n_nonces s' = (n_nonces s)(index := c + ucast r)"
    "n_paused s' = (q \<or> n_paused s)" "n_sequence s' = n_sequence s"
proof -
  have g: "r \<noteq> 0" "\<not> (m AND 0x7FFFFFFFFFFFFFFF) < ucast (r - 1)"
    using assms by (auto simp: nonce_next_def Let_def split: if_splits)
  obtain v c where c: "n_nonces s index \<le> c" "loop_result index r (m AND 0x7FFFFFFFFFFFFFFF) c s v s'"
    "v = Some c \<and> mem' = nonce_write mem p (m AND 0x7FFFFFFFFFFFFFFF) c"
    using nonce_next_returns [OF g, of s index mem p] assms by (fastforce simp: loop_result_def)
  then show thesis using g(1) that by (auto simp: loop_result_def)
qed

lemma masked_add:
  assumes "unat c < 2 ^ k" and "k \<le> 63"
  shows "(x AND NOT (mask k)) OR c = (x AND NOT (mask k)) + (c :: u64)"
proof -
  have "take_bit k c = c" using assms(1) by (simp add: word_unat_eq_iff unsigned_take_bit_eq take_bit_nat_eq_self_iff)
  then have "bit c n \<Longrightarrow> n < k" for n by (metis bit_take_bit_iff)
  then have "(x AND NOT (mask k)) AND c = 0" by (auto simp: bit_eq_iff bit_simps)
  then show ?thesis by (simp add: disjunctive_add_eq_or)
qed

lemma nonce_next_range:
  assumes "nonce_next index mem p r (mask k) s = Some (True, mem', s')" and "k \<le> 64" and "p + 8 \<le> length mem"
  shows "\<exists>c. n_nonces s index \<le> c \<and> n_nonces s' = (n_nonces s)(index := c + ucast r)
    \<and> unat c + unat r \<le> 2 ^ min k 63 \<and> length mem' = length mem
    \<and> (\<forall>i < unat r. read64 (write32 mem' p (read32 mem' p + of_nat i)) p
        = (read64 mem p AND NOT (mask (min k 63))) OR (c + of_nat i))"
proof -
  obtain c q where t: "r \<noteq> 0" "next_body r (mask (min k 63)) c = Take q" "n_nonces s index \<le> c"
    "mem' = nonce_write mem p (mask (min k 63)) c" "n_nonces s' = (n_nonces s)(index := c + ucast r)"
    using assms(1) by (rule nonce_next_taken) (simp add: mask_min [OF assms(2)])
  have c: "unat c mod 2 ^ 32 + unat r \<le> 2 ^ 32" "unat c + unat r \<le> 2 ^ min k 63"
    using no_carry_room [OF t(2,1)] by simp_all
  have "(2 :: nat) ^ min k 63 \<le> 2 ^ 63" by (intro power_increasing) auto
  then have c64: "unat c + unat r < 2 ^ 64" using c(2) by simp
  have "0 < unat r" using t(1) by (simp add: unat_gt_0)
  then have "c \<le> mask (min k 63)" using c(2) by (simp add: word_le_nat_alt unat_mask)
  then have b: "read64 mem' p = (read64 mem p AND NOT (mask (min k 63))) OR c"
    using nonce_write_read64 [OF assms(3)] t(4) by simp
  let ?x = "read64 mem p AND NOT (mask (min k 63))"
  have "read64 (write32 mem' p (read32 mem' p + of_nat i)) p = ?x OR (c + of_nat i)" if "i < unat r" for i
  proof -
    have i: "unat (c + of_nat i) = unat c + i"
      using that c64 by (simp add: unat_word_ariths unsigned_of_nat take_bit_eq_mod)
    have "?x OR (c + of_nat i) = ?x + (c + of_nat i)" "?x OR c = ?x + c"
      using that c(2) i by (intro masked_add; simp)+
    then have s: "read64 mem' p + of_nat i = ?x OR (c + of_nat i)" using b by (simp add: add.assoc)
    have "drop_bit 32 (c + of_nat i) = drop_bit 32 c"
      using that c(1) c64 by (intro drop_32_same) simp_all
    then have "drop_bit 32 (read64 mem' p + of_nat i) = drop_bit 32 (read64 mem' p)"
      unfolding s unfolding b by (simp add: drop_bit_or)
    moreover have "p + 4 \<le> length mem'" using assms(3) t(4) by (simp add: nonce_write_def Let_def)
    ultimately show ?thesis using read64_add_low s by simp
  qed
  moreover have "length mem' = length mem" using t(4) by (simp add: nonce_write_def Let_def)
  ultimately show ?thesis using t(3,5) c(2) by blast
qed

section \<open>Properties\<close>

lemma nonce_next_total:
  "\<exists>ok mem' s'. nonce_next index mem p reserveCount msk s = Some (ok, mem', s')
    \<and> n_sequence s' = n_sequence s \<and> (ok \<or> mem' = mem)"
proof (cases "reserveCount = 0 \<or> msk AND 0x7FFFFFFFFFFFFFFF < ucast (reserveCount - 1)")
  case True
  then show ?thesis by (auto simp: nonce_next_def Let_def)
next
  case False
  then show ?thesis
    using nonce_next_returns [of reserveCount msk s index mem p] by (auto simp: loop_result_def split: option.splits)
qed

text \<open>C8. \<open>Nonce::next\<close> returns, whatever the counters, the mask and the number of nonces: its
  loop fetches a new counter only while there is room for a whole range below the mask, so the counter
  passes the mask after finitely many rounds. When it gives up, the nonce and the sequence numbers
  are unchanged.\<close>

theorem nonce_next_terminates:
  "\<exists>ok mem' s'. nonce_next index mem p reserveCount msk s = Some (ok, mem', s')
    \<and> n_sequence s' = n_sequence s \<and> (ok \<or> mem' = mem)"
  by (rule nonce_next_total)

text \<open>C9. A successful \<open>next\<close> reserves a range of counters. With a mask of \<open>k\<close> ones (the masks
  of all jobs), there is a counter \<open>c\<close>, not below the shared counter, whose range of
  \<open>reserveCount\<close> counters ends at or below the mask; the shared counter moves behind the range; and
  adding \<open>i < reserveCount\<close> to the low word of the nonce, which is how the workers walk through the range,
  gives the 64 bit nonce with \<open>c + i\<close> in the bits of the mask and the other bits (such as the byte
  that NiceHash fixes) as the pool has set them.\<close>

theorem nonce_next_reserves:
  assumes "nonce_next index mem p reserveCount (mask k) s = Some (True, mem', s')" and "k \<le> 64" and "p + 8 \<le> length mem"
  shows "\<exists>c. n_nonces s index \<le> c \<and> n_nonces s' = (n_nonces s)(index := c + ucast reserveCount)
    \<and> unat c + unat reserveCount \<le> 2 ^ min k 63 \<and> length mem' = length mem
    \<and> (\<forall>i < unat reserveCount. read64 (write32 mem' p (read32 mem' p + of_nat i)) p
        = (read64 mem p AND NOT (mask (min k 63))) OR (c + of_nat i))"
  by (rule nonce_next_range [OF assms])

lemma demo_next: "nonce_next 0 [1, 2, 3, 0xAA, 5, 6, 7, 8] 0 16 (mask 24) nonce_init
  = Some (True, [0, 0, 0, 0xAA, 5, 6, 7, 8], nonce_init\<lparr> n_nonces := (n_nonces nonce_init)(0 := 16) \<rparr>)"
  by (simp add: nonce_next_def fetch_add_def next_loop.simps next_body_def nonce_init_def pause_if_def
    nonce_write_def read32_def write32_def mask_eq_exp_minus_1)

theorem nonce_next_reserves_witness:
  "\<exists>c. n_nonces nonce_init 0 \<le> c \<and> (n_nonces nonce_init)(0 := 16) = (n_nonces nonce_init)(0 := c + 16)
    \<and> unat c + 16 \<le> 2 ^ 24"
  using nonce_next_reserves [OF demo_next] by auto

text \<open>C31. When the nonces are used up, mining is paused: if a call moves the shared counter past the
  mask, then the miner is paused afterwards, whether or not the call has got the last range.\<close>

theorem nonce_exhausted_pauses:
  assumes "nonce_next index mem p reserveCount msk s = Some (ok, mem', s')"
    and "n_nonces s index \<le> msk AND 0x7FFFFFFFFFFFFFFF" and "msk AND 0x7FFFFFFFFFFFFFFF < n_nonces s' index"
  shows "n_paused s'"
proof -
  let ?m = "msk AND 0x7FFFFFFFFFFFFFFF"
  have g: "reserveCount \<noteq> 0" "\<not> ?m < ucast (reserveCount - 1)"
    using assms by (auto simp: nonce_next_def Let_def split: if_splits)
  obtain v c where c: "loop_result index reserveCount ?m c s v s'" "c \<le> ?m"
    using nonce_next_returns [OF g, of s index mem p] assms(1,2) by (fastforce split: option.splits)
  have "unat reserveCount < 2 ^ 32" "unat c \<le> unat ?m"
    using unsigned_less [of reserveCount] c(2) by (simp_all add: word_le_nat_alt)
  then have "unat (c + ucast reserveCount) = unat c + unat reserveCount"
    using masked_63 [of msk] by (intro unat_counter) simp
  moreover have "unat ?m < unat (c + ucast reserveCount)" using c(1) assms(3) by (simp add: loop_result_def word_less_nat_alt)
  ultimately show ?thesis
    using c body_cases(1,2) [OF g(1), of ?m c] by (auto simp: loop_result_def word_le_nat_alt)
qed

theorem nonce_exhausted_pauses_witness:
  "n_paused (snd (snd (the (nonce_next 0 [1, 2, 3, 4] 0 16 0xF (nonce_init\<lparr> n_paused := False \<rparr>)))))"
proof -
  have *: "nonce_next 0 [1, 2, 3, 4] 0 16 0xF (nonce_init\<lparr> n_paused := False \<rparr>) =
    Some (True, [0, 2, 3, 4], nonce_init\<lparr> n_paused := True, n_nonces := (n_nonces nonce_init)(0 := 16) \<rparr>)"
    by (simp add: nonce_next_def fetch_add_def next_loop.simps next_body_def nonce_init_def pause_if_def nonce_pause_def
      nonce_write_def read32_def write32_def)
  from nonce_exhausted_pauses [OF this] show ?thesis unfolding * by (simp add: nonce_init_def)
qed

end
