(* ===== verification/Nonce_Run.thy ===== *)
theory Nonce_Run
  imports Nonce
begin

text \<open>
  The workers share the counters of \<open>Nonce\<close> and call \<open>next\<close> at the same time. A run
  interleaves their atomic steps: the addition that fetches a counter, and the pass through the body
  of the loop that follows it (which touches no shared data but the pause flag). Pausing, stopping
  and the sequence numbers may change at any time; a run stays between two resets of the counters.
  \<open>g_granted\<close> logs the ranges that calls of \<open>next\<close> have returned, and \<open>g_fetched\<close>
  how much has been added to a counter, without wrap-around.
\<close>

section \<open>Interleaved calls\<close>

datatype worker = Idle | Holding nat u32 u64 u64

type_synonym range = "nat \<times> u64 \<times> u32"

record run_state =
  g_nonce :: nonce_state
  g_worker :: "nat \<Rightarrow> worker"
  g_granted :: "range list"
  g_fetched :: "nat \<Rightarrow> nat"

definition run_fetch :: "nat \<Rightarrow> nat \<Rightarrow> u32 \<Rightarrow> u64 \<Rightarrow> run_state \<Rightarrow> run_state" where
  "run_fetch t index r m s =
     (case fetch_add index r (g_nonce s) of (c, n) \<Rightarrow>
       s\<lparr> g_nonce := n, g_worker := (g_worker s)(t := Holding index r m c),
          g_fetched := (g_fetched s)(index := g_fetched s index + unat r) \<rparr>)"

definition run_leave :: "nat \<Rightarrow> bool \<Rightarrow> run_state \<Rightarrow> run_state" where
  "run_leave t p s = s\<lparr> g_nonce := pause_if p (g_nonce s), g_worker := (g_worker s)(t := Idle) \<rparr>"

inductive nonce_run :: "run_state \<Rightarrow> run_state \<Rightarrow> bool" where
  run_call: "g_worker s t = Idle \<Longrightarrow> r \<noteq> 0 \<Longrightarrow> \<not> (m AND 0x7FFFFFFFFFFFFFFF) < ucast (r - 1) \<Longrightarrow>
    nonce_run s (run_fetch t index r (m AND 0x7FFFFFFFFFFFFFFF) s)"
| run_again: "g_worker s t = Holding index r m c \<Longrightarrow> next_body r m c = Again \<Longrightarrow>
    nonce_run s (run_fetch t index r m s)"
| run_give_up: "g_worker s t = Holding index r m c \<Longrightarrow> next_body r m c = GiveUp p \<Longrightarrow>
    nonce_run s (run_leave t p s)"
| run_take: "g_worker s t = Holding index r m c \<Longrightarrow> next_body r m c = Take p \<Longrightarrow>
    nonce_run s ((run_leave t p s)\<lparr> g_granted := (index, c, r) # g_granted s \<rparr>)"
| run_other: "n_nonces n = n_nonces (g_nonce s) \<Longrightarrow> nonce_run s (s\<lparr> g_nonce := n \<rparr>)"

definition run_start :: "nonce_state \<Rightarrow> run_state" where
  "run_start n = \<lparr> g_nonce = n, g_worker = (\<lambda>_. Idle), g_granted = [], g_fetched = (\<lambda>_. 0) \<rparr>"

section \<open>Ranges\<close>

definition range_set :: "range \<Rightarrow> (nat \<times> nat) set" where
  "range_set x = (case x of (index, c, r) \<Rightarrow> {index} \<times> {unat c ..< unat c + unat r})"

definition apart :: "range \<Rightarrow> range \<Rightarrow> bool" where
  "apart x y \<longleftrightarrow> range_set x \<inter> range_set y = {}"

lemma apart_sym: "apart x y \<Longrightarrow> apart y x"
  by (auto simp: apart_def)

lemma apart_behind: "fst x = index \<Longrightarrow> unat (fst (snd x)) + unat (snd (snd x)) \<le> unat c \<Longrightarrow> apart (index, c, r) x"
  by (cases x) (auto simp: apart_def range_set_def)

lemma apart_other: "fst x \<noteq> index \<Longrightarrow> apart (index, c, r) x"
  by (cases x) (auto simp: apart_def range_set_def)

text \<open>The range that a worker holds.\<close>

definition held :: "run_state \<Rightarrow> nat \<Rightarrow> range option" where
  "held s t = (case g_worker s t of Idle \<Rightarrow> None | Holding index r m c \<Rightarrow> Some (index, c, r))"

definition ends_below :: "nonce_state \<Rightarrow> range \<Rightarrow> bool" where
  "ends_below n x \<longleftrightarrow> unat (fst (snd x)) + unat (snd (snd x)) \<le> unat (n_nonces n (fst x))"

definition run_inv :: "(nat \<Rightarrow> nat) \<Rightarrow> run_state \<Rightarrow> bool" where
  "run_inv base s \<longleftrightarrow> (\<forall>i. unat (n_nonces (g_nonce s) i) = base i + g_fetched s i)
     \<and> (\<forall>x\<in>set (g_granted s). ends_below (g_nonce s) x)
     \<and> (\<forall>t x. held s t = Some x \<longrightarrow> ends_below (g_nonce s) x)
     \<and> sorted_wrt apart (g_granted s)
     \<and> (\<forall>t x. held s t = Some x \<longrightarrow> (\<forall>y\<in>set (g_granted s). apart x y))
     \<and> (\<forall>t t' x y. held s t = Some x \<longrightarrow> held s t' = Some y \<longrightarrow> t \<noteq> t' \<longrightarrow> apart x y)"

lemma run_fetch_inv:
  assumes inv: "run_inv base s" and room: "\<forall>i. base i + g_fetched (run_fetch t index r m s) i < 2 ^ 64"
  shows "run_inv base (run_fetch t index r m s)"
proof -
  let ?s = "run_fetch t index r m s" and ?n = "g_nonce s"
  let ?x = "(index, n_nonces ?n index, r)"
  have fields: "g_granted ?s = g_granted s" "held ?s = (held s)(t \<mapsto> ?x)"
    "g_fetched ?s = (g_fetched s)(index := g_fetched s index + unat r)"
    "n_nonces (g_nonce ?s) = (n_nonces ?n)(index := n_nonces ?n index + ucast r)"
    by (auto simp: run_fetch_def fetch_add_def held_def)
  have "base index + g_fetched s index + unat r < 2 ^ 64" using room by (auto simp: fields dest: spec [of _ index])
  then have u: "unat (n_nonces ?n index + ucast r) = unat (n_nonces ?n index) + unat r"
    using inv by (intro unat_counter) (simp add: run_inv_def)
  have mono: "ends_below (g_nonce ?s) x" if "ends_below ?n x" for x
    using that u by (auto simp: ends_below_def fields)
  have new: "apart ?x x" if "ends_below ?n x" for x
    using that by (cases "fst x = index") (auto simp: ends_below_def intro: apart_behind apart_other)
  have "ends_below (g_nonce ?s) ?x" using u by (simp add: ends_below_def fields)
  then show ?thesis
    using inv mono new u unfolding run_inv_def fields by (auto intro: apart_sym)
qed

lemma run_leave_fields:
  "g_granted (run_leave t p s) = g_granted s" "held (run_leave t p s) = (held s)(t := None)"
  "g_fetched (run_leave t p s) = g_fetched s" "n_nonces (g_nonce (run_leave t p s)) = n_nonces (g_nonce s)"
  by (auto simp: run_leave_def held_def)

lemma ends_below_nonces: "n_nonces n' = n_nonces n \<Longrightarrow> ends_below n' x = ends_below n x"
  by (simp add: ends_below_def)

lemma run_step_fetched: "nonce_run s s' \<Longrightarrow> g_fetched s i \<le> g_fetched s' i"
  by (induction rule: nonce_run.induct) (auto simp: run_fetch_def fetch_add_def run_leave_def)

lemma run_step_inv:
  assumes "nonce_run s s'" and "run_inv base s" and "\<forall>i. base i + g_fetched s' i < 2 ^ 64"
  shows "run_inv base s'"
  using assms
proof (induction rule: nonce_run.induct)
  case (run_give_up s t index r m c p)
  note e = ends_below_nonces [OF run_leave_fields(4)]
  from run_give_up show ?case unfolding run_inv_def run_leave_fields e by auto
next
  case (run_take s t index r m c p)
  let ?s = "(run_leave t p s)\<lparr> g_granted := (index, c, r) # g_granted s \<rparr>"
  have h: "held s t = Some (index, c, r)" using run_take(1) by (simp add: held_def)
  have f: "g_granted ?s = (index, c, r) # g_granted s" "held ?s = (held s)(t := None)" "g_fetched ?s = g_fetched s"
    "n_nonces (g_nonce ?s) = n_nonces (g_nonce s)"
    by (auto simp: run_leave_def held_def)
  show ?case using run_take(3) h unfolding run_inv_def f ends_below_nonces [OF f(4)] by auto
next
  case (run_other n s)
  let ?s = "s\<lparr> g_nonce := n \<rparr>"
  have f: "g_granted ?s = g_granted s" "held ?s = held s" "g_fetched ?s = g_fetched s"
    "n_nonces (g_nonce ?s) = n_nonces (g_nonce s)"
    using run_other(1) by (auto simp: held_def)
  show ?case using run_other(2) unfolding run_inv_def f ends_below_nonces [OF f(4)] .
qed (auto intro: run_fetch_inv)

lemma run_inv_reach:
  assumes "nonce_run\<^sup>*\<^sup>* (run_start n) s" and "\<forall>i. unat (n_nonces n i) + g_fetched s i < 2 ^ 64"
  shows "run_inv (\<lambda>i. unat (n_nonces n i)) s"
  using assms
proof (induction rule: rtranclp_induct)
  case base
  then show ?case by (simp add: run_inv_def run_start_def held_def)
next
  case (step s s')
  have "\<forall>i. unat (n_nonces n i) + g_fetched s i < 2 ^ 64"
    using step(4) run_step_fetched [OF step(2)] by (metis add_le_cancel_left le_less_trans)
  then show ?case using run_step_inv [OF step(2)] step(3,4) by simp
qed

section \<open>Properties\<close>

text \<open>C7. No nonce is given out twice. In any interleaving of calls of \<open>next\<close> by any number of
  workers, with any masks and range sizes, from any state of the counters, the ranges that the calls have
  returned are pairwise disjoint, as long as the counters have not wrapped around at 2^64 (the mask cuts them
  off at 2^63 at the latest; beyond it calls only fail).\<close>

theorem nonces_disjoint:
  assumes "nonce_run\<^sup>*\<^sup>* (run_start n) s" and "\<forall>i. unat (n_nonces n i) + g_fetched s i < 2 ^ 64"
    and "a < b" and "b < length (g_granted s)"
  shows "range_set (g_granted s ! a) \<inter> range_set (g_granted s ! b) = {}"
proof -
  have "sorted_wrt apart (g_granted s)" using run_inv_reach [OF assms(1,2)] by (simp add: run_inv_def)
  then show ?thesis using assms(3,4) by (auto simp: sorted_wrt_iff_nth_less apart_def)
qed

text \<open>Two workers fetch, the second one is served first.\<close>

definition demo_run :: run_state where
  "demo_run = \<lparr> g_nonce = nonce_init\<lparr> n_nonces := (n_nonces nonce_init)(0 := 12) \<rparr>, g_worker = (\<lambda>_. Idle),
     g_granted = [(0, 0, 4), (0, 4, 8)], g_fetched = (\<lambda>_. 0)(0 := 12) \<rparr>"

lemma demo_run_reach: "nonce_run\<^sup>*\<^sup>* (run_start nonce_init) demo_run"
proof -
  have b: "next_body 4 0xFF 0 = Take False" "next_body 8 0xFF 4 = Take False" by (simp_all add: next_body_def)
  let ?s1 = "run_fetch 0 0 4 (0xFF AND 0x7FFFFFFFFFFFFFFF) (run_start nonce_init)"
  let ?s2 = "run_fetch 1 0 8 (0xFF AND 0x7FFFFFFFFFFFFFFF) ?s1"
  let ?s3 = "(run_leave 1 False ?s2)\<lparr> g_granted := (0, 4, 8) # g_granted ?s2 \<rparr>"
  let ?s4 = "(run_leave 0 False ?s3)\<lparr> g_granted := (0, 0, 4) # g_granted ?s3 \<rparr>"
  have r1: "nonce_run (run_start nonce_init) ?s1" by (rule run_call) (simp_all add: run_start_def)
  have r2: "nonce_run ?s1 ?s2" by (rule run_call) (simp_all add: run_fetch_def fetch_add_def run_start_def)
  have r3: "nonce_run ?s2 ?s3"
    by (rule run_take [where m = "0xFF"])
      (simp_all add: run_fetch_def fetch_add_def run_start_def nonce_init_def b)
  have r4: "nonce_run ?s3 ?s4"
    by (rule run_take [where m = "0xFF"])
      (simp_all add: run_leave_def run_fetch_def fetch_add_def run_start_def nonce_init_def b)
  have e: "?s4 = demo_run"
    by (simp add: demo_run_def run_leave_def run_fetch_def fetch_add_def run_start_def pause_if_def nonce_init_def)
      (auto simp: fun_eq_iff)
  show ?thesis
    using rtranclp.rtrancl_into_rtrancl [where r = nonce_run, OF _ r4]
      rtranclp.rtrancl_into_rtrancl [where r = nonce_run, OF _ r3]
      rtranclp.rtrancl_into_rtrancl [where r = nonce_run, OF _ r2] r_into_rtranclp [where r = nonce_run, OF r1]
    unfolding e by blast
qed

theorem nonces_disjoint_witness: "range_set (0, 0, 4) \<inter> range_set (0, 4, 8) = {}"
  using nonces_disjoint [OF demo_run_reach, of 0 1] by (simp add: demo_run_def nonce_init_def)

end
