(* ===== verification/Cvt.thy ===== *)
theory Cvt
  imports FeeTable
begin

text \<open>
  Hexadecimal conversion, from \<^verbatim>\<open>src/src/base/tools/Cvt.cpp\<close> (the build without
  libsodium). Characters and bytes are unsigned chars; the branch-free digit arithmetic is done in
  32 bit unsigned integers and truncated where it is assigned, as in the code. A conversion into a
  buffer returns the new buffer also when it fails, because it has already written there.
\<close>

section \<open>Binary to hexadecimal\<close>

definition hex_char :: "u32 \<Rightarrow> byte" where
  "hex_char c = ucast (87 + c + (drop_bit 8 (c - 10) AND NOT 38))"

text \<open>The two characters of a byte, most significant digit first.\<close>

definition hex_pair :: "byte \<Rightarrow> byte \<times> byte" where
  "hex_pair bin =
     (let c = ucast (bin AND 0xf) :: u32;
          b = ucast (drop_bit 4 bin) :: u32;
          x = push_bit 8 (ucast (hex_char c)) OR ucast (hex_char b) :: u32
      in (ucast x, ucast (drop_bit 8 x)))"

definition byte_char :: "byte \<Rightarrow> char" where
  "byte_char b = char_of (unat b)"

fun bin2hex_loop :: "bytes \<Rightarrow> string" where
  "bin2hex_loop [] = []"
| "bin2hex_loop (b # bs) = (let (x, y) = hex_pair b in byte_char x # byte_char y # bin2hex_loop bs)"

text \<open>\<open>None\<close> is the null pointer. The string is what the buffer holds up to its length
  \<^verbatim>\<open>2 * bin_len\<close>; a zero byte follows when there is room.\<close>

definition cvt_bin2hex :: "nat \<Rightarrow> bytes \<Rightarrow> string option" where
  "cvt_bin2hex hex_maxlen bin =
     (if length bin \<ge> (2 ^ 64 - 1) div 2 \<or> hex_maxlen < length bin * 2 then None
      else Some (bin2hex_loop bin))"

definition toHex :: "bytes \<Rightarrow> string" where
  "toHex bin =
     (if bin = [] then []
      else case cvt_bin2hex (length bin * 2 + 1) bin of None \<Rightarrow> [] | Some hex \<Rightarrow> hex)"

section \<open>Hexadecimal to binary\<close>

text \<open>The digit of a character: the two masks and the value.\<close>

definition hex_num0 :: "byte \<Rightarrow> byte" where
  "hex_num0 c = (let c_num = c XOR 48 in ucast (drop_bit 8 (ucast c_num - 10 :: u32)))"

definition hex_alpha :: "byte \<Rightarrow> byte" where
  "hex_alpha c = ucast ((ucast c AND NOT 32) - 55 :: u32)"

definition hex_alpha0 :: "byte \<Rightarrow> byte" where
  "hex_alpha0 c =
     (let c_alpha = ucast (hex_alpha c) :: u32 in ucast (drop_bit 8 ((c_alpha - 10) XOR (c_alpha - 16))))"

definition hex_val :: "byte \<Rightarrow> byte" where
  "hex_val c = (hex_num0 c AND (c XOR 48)) OR (hex_alpha0 c AND hex_alpha c)"

record hexst =
  h_bin :: bytes
  h_bin_pos :: nat
  h_hex_pos :: nat
  h_ret :: int
  h_acc :: byte
  h_state :: byte

fun hex2bin_loop :: "nat \<Rightarrow> string option \<Rightarrow> string \<Rightarrow> hexst \<Rightarrow> hexst" where
  "hex2bin_loop bin_maxlen ignore [] s = s"
| "hex2bin_loop bin_maxlen ignore (ch # hex) s =
     (let c = of_char ch :: byte
      in if hex_num0 c OR hex_alpha0 c = 0
         then if (case ignore of None \<Rightarrow> False
                  | Some t \<Rightarrow> h_state s = 0 \<and> (c = 0 \<or> ch \<in> set (c_str t)))
              then hex2bin_loop bin_maxlen ignore hex (s\<lparr> h_hex_pos := h_hex_pos s + 1 \<rparr>)
              else s
         else if h_bin_pos s \<ge> bin_maxlen then s\<lparr> h_ret := - 1 \<rparr>
         else
           let s = (if h_state s = 0 then s\<lparr> h_acc := hex_val c * 16 \<rparr>
                    else s\<lparr> h_bin := (h_bin s)[h_bin_pos s := h_acc s OR hex_val c],
                      h_bin_pos := h_bin_pos s + 1 \<rparr>)
           in hex2bin_loop bin_maxlen ignore hex (s\<lparr> h_state := NOT (h_state s), h_hex_pos := h_hex_pos s + 1 \<rparr>))"

text \<open>Every call passes null for \<^verbatim>\<open>bin_len\<close>; \<open>hex_end\<close> says whether the
  pointer of that name is given.\<close>

definition cvt_hex2bin :: "bytes \<Rightarrow> nat \<Rightarrow> string \<Rightarrow> string option \<Rightarrow> bool \<Rightarrow> int \<times> bytes" where
  "cvt_hex2bin bin bin_maxlen hex ignore hex_end =
     (let s = hex2bin_loop bin_maxlen ignore hex
                \<lparr> h_bin = bin, h_bin_pos = 0, h_hex_pos = 0, h_ret = 0, h_acc = 0, h_state = 0 \<rparr>;
          s = (if h_state s \<noteq> 0 then s\<lparr> h_hex_pos := h_hex_pos s - 1, h_ret := - 1 \<rparr> else s);
          ret = (if \<not> hex_end \<and> h_hex_pos s \<noteq> length hex then - 1 else h_ret s)
      in (ret, h_bin s))"

text \<open>Into a byte array, and into a buffer that is resized; the last one returns the empty buffer
  on failure.\<close>

definition fromHex_array :: "bytes \<Rightarrow> nat \<Rightarrow> string \<Rightarrow> bool \<times> bytes" where
  "fromHex_array bin bin_maxlen hex =
     (if hex = [] then (False, bin)
      else let (ret, bin) = cvt_hex2bin bin bin_maxlen hex None False in (ret = 0, bin))"

definition resize :: "nat \<Rightarrow> bytes \<Rightarrow> bytes" where
  "resize n buf = take n buf @ replicate (n - length buf) 0"

definition fromHexImpl :: "bytes \<Rightarrow> string \<Rightarrow> bool \<times> bytes" where
  "fromHexImpl buf hex =
     (if hex = [] then (False, buf)
      else let buf = resize (length hex div 2) buf; (ret, buf) = cvt_hex2bin buf (length buf) hex None False
           in (ret = 0, buf))"

definition fromHex :: "string \<Rightarrow> bytes" where
  "fromHex hex = (let (ok, buf) = fromHexImpl [] hex in if ok then buf else [])"

section \<open>The digits\<close>

abbreviation digit_ok :: "nat \<Rightarrow> bool" where
  "digit_ok n \<equiv> (hex_num0 (word_of_nat n) OR hex_alpha0 (word_of_nat n) \<noteq> 0 \<longleftrightarrow> hexDigit (char_of n) \<noteq> None)
    \<and> (case hexDigit (char_of n) of None \<Rightarrow> True
        | Some d \<Rightarrow> hex_val (word_of_nat n) = word_of_nat d \<and> d < 16)"

lemma mask_24: "mask 24 = (16777215 :: u32)"
  by (simp add: mask_eq_exp_minus_1)

lemma hex_digit_table: "list_all digit_ok (0 # 1 # [2..<256])"
  by (simp add: hexDigit_def hex_num0_def hex_alpha0_def hex_alpha_def hex_val_def upt_rec_numeral mask_24)

lemma below_list: "n < k \<Longrightarrow> n \<in> set (0 # 1 # [2..<k])" for n k :: nat
  by auto

lemma hex_digit_char: "digit_ok (of_char c)"
proof -
  have "of_char c < (256 :: nat)" by simp
  then have "of_char c \<in> set (0 # 1 # [2..<256])" by (rule below_list)
  then show ?thesis using hex_digit_table unfolding list_all_iff by blast
qed

lemma is_digit: "hex_num0 (of_char c) OR hex_alpha0 (of_char c) = 0 \<longleftrightarrow> hexDigit c = None"
  using hex_digit_char [of c] by (auto simp: of_nat_of_char)

lemma digit_val: "hexDigit c = Some d \<Longrightarrow> hex_val (of_char c) = of_nat d" "hexDigit c = Some d \<Longrightarrow> d < 16"
  using hex_digit_char [of c] by (auto simp: of_nat_of_char)

lemma digits_or:
  assumes "x < 16" and "y < 16"
  shows "of_nat x * 16 OR of_nat y = (of_nat (x * 16 + y) :: byte)"
proof -
  have y: "take_bit 4 y = y" using assms(2) by (simp add: take_bit_nat_eq_self_iff)
  have "(of_nat x * 16 :: byte) AND of_nat (take_bit 4 y) = 0"
    by (simp add: bit_eq_iff bit_simps of_nat_take_bit push_bit_eq_mult [of 4, simplified, symmetric])
  then have "(of_nat x * 16 :: byte) AND of_nat y = 0" by (simp only: y)
  then show ?thesis by (simp add: disjunctive_add_eq_or [symmetric])
qed

lemma loop_digit:
  assumes "hexDigit a = Some x" and "hexDigit b = Some y" and "h_state s = 0" and "h_bin_pos s < m"
  shows "hex2bin_loop m None (a # b # hex) s = hex2bin_loop m None hex
    (s\<lparr> h_acc := of_nat x * 16, h_bin := (h_bin s)[h_bin_pos s := of_nat (x * 16 + y)],
      h_bin_pos := h_bin_pos s + 1, h_state := 0, h_hex_pos := h_hex_pos s + 2 \<rparr>)"
  using assms digit_val digits_or [of x y] by (simp add: is_digit Let_def digit_val)

text \<open>The loop accepts exactly the strings of pairs of digits that fit.\<close>

lemma hex2bin_loop_accepts:
  assumes "h_state s = 0" and "h_ret s = 0"
  shows "(let t = hex2bin_loop m None hex s
      in h_state t = 0 \<and> h_ret t = 0 \<and> h_hex_pos t = h_hex_pos s + length hex)
    \<longleftrightarrow> even (length hex) \<and> hexValue hex (length hex div 2) \<noteq> None
      \<and> (hex = [] \<or> h_bin_pos s + length hex div 2 \<le> m)"
  using assms
proof (induction hex arbitrary: s rule: induct_list012)
  case (3 a b hex)
  show ?case
  proof (cases "hexDigit a = None \<or> hexDigit b = None \<or> m \<le> h_bin_pos s")
    case True
    then show ?thesis using 3(3,4) by (auto simp: is_digit Let_def split: option.splits)
  next
    case False
    then obtain x y where d: "hexDigit a = Some x" "hexDigit b = Some y" "h_bin_pos s < m" by auto
    show ?thesis
      using d 3(3,4) 3(1) [of "s\<lparr> h_acc := of_nat x * 16, h_bin := (h_bin s)[h_bin_pos s := of_nat (x * 16 + y)],
        h_bin_pos := h_bin_pos s + 1, h_state := 0, h_hex_pos := h_hex_pos s + 2 \<rparr>"]
      by (auto simp: loop_digit Let_def simp del: hex2bin_loop.simps)
  qed
qed (auto simp: is_digit Let_def)

lemma hex2bin_loop_bin:
  assumes "h_state s = 0" and "hexValue hex n = Some out" and "length hex = 2 * n" and "h_bin_pos s + n \<le> m"
    and "m \<le> length (h_bin s)"
  shows "h_bin (hex2bin_loop m None hex s) = take (h_bin_pos s) (h_bin s) @ out @ drop (h_bin_pos s + n) (h_bin s)"
  using assms
proof (induction hex n arbitrary: s out rule: hexValue.induct)
  case (2 a b hex n)
  then obtain x y rest where d: "hexDigit a = Some x" "hexDigit b = Some y" "hexValue hex n = Some rest"
    "out = of_nat (x * 16 + y) # rest"
    by (auto split: option.splits)
  have p: "h_bin_pos s < length (h_bin s)" "h_bin_pos s < m" using 2(5,6) by simp_all
  show ?case using 2(2-) d p
    by (simp add: loop_digit 2(1) [OF refl d(1,2)] take_Suc_conv_app_nth nth_append upd_conv_take_nth_drop
      add.commute [of _ n] del: hex2bin_loop.simps)
qed simp_all

section \<open>Correctness\<close>

lemma fromHex_array_spec:
  assumes "m \<le> length bin"
  shows "fst (fromHex_array bin m hex) \<longleftrightarrow> hex \<noteq> [] \<and> even (length hex) \<and> length hex div 2 \<le> m
      \<and> hexValue hex (length hex div 2) \<noteq> None" (is "?A \<longleftrightarrow> ?B")
    and "fst (fromHex_array bin m hex) \<Longrightarrow>
      snd (fromHex_array bin m hex) = the (hexValue hex (length hex div 2)) @ drop (length hex div 2) bin"
proof -
  let ?s = "\<lparr> h_bin = bin, h_bin_pos = 0, h_hex_pos = 0, h_ret = 0, h_acc = 0, h_state = 0 \<rparr>"
  let ?t = "hex2bin_loop m None hex ?s"
  have "?A \<longleftrightarrow> hex \<noteq> [] \<and> h_state ?t = 0 \<and> h_ret ?t = 0 \<and> h_hex_pos ?t = length hex"
    by (auto simp: fromHex_array_def cvt_hex2bin_def Let_def)
  moreover have "(h_state ?t = 0 \<and> h_ret ?t = 0 \<and> h_hex_pos ?t = length hex) \<longleftrightarrow> even (length hex)
      \<and> hexValue hex (length hex div 2) \<noteq> None \<and> (hex = [] \<or> length hex div 2 \<le> m)"
    using hex2bin_loop_accepts [of ?s m hex] by (simp add: Let_def)
  ultimately show ok: "?A \<longleftrightarrow> ?B" by blast
  have "h_bin ?t = the (hexValue hex (length hex div 2)) @ drop (length hex div 2) bin" if ?B
    using that assms hex2bin_loop_bin [of ?s hex "length hex div 2" _ m] by auto
  moreover have "hex \<noteq> [] \<Longrightarrow> snd (fromHex_array bin m hex) = h_bin ?t"
    by (simp add: fromHex_array_def cvt_hex2bin_def Let_def)
  ultimately show "?A \<Longrightarrow> snd (fromHex_array bin m hex) = the (hexValue hex (length hex div 2)) @ drop (length hex div 2) bin"
    using ok by simp
qed

text \<open>The characters that \<open>cvt_bin2hex\<close> writes.\<close>

lemma hex_pair_split: "hex_pair b = (hex_char (ucast (drop_bit 4 b)), hex_char (ucast (b AND 0xf)))"
proof -
  have z: "\<not> bit q (8 + n)" for q :: byte and n using bit_imp_le_length [of q "8 + n"] by auto
  have "ucast (push_bit 8 (ucast p) OR ucast q :: u32) = q" "ucast (drop_bit 8 (push_bit 8 (ucast p) OR ucast q :: u32)) = p"
    for p q :: byte
    by (auto intro!: bit_word_eqI simp: bit_simps z)
  then show ?thesis by (simp add: hex_pair_def Let_def)
qed

lemma hex_char_table: "list_all (\<lambda>n. hexDigit (byte_char (hex_char (word_of_nat n))) = Some n) (0 # 1 # [2..<16])"
  by (simp add: hex_char_def byte_char_def hexDigit_def mask_24 upt_rec_numeral)

lemma hex_char_digit: "n < 16 \<Longrightarrow> hexDigit (byte_char (hex_char (word_of_nat n))) = Some n"
  by (rule bspec [OF hex_char_table [unfolded list_all_iff] below_list])

lemma nibbles: "ucast (drop_bit 4 b) = (word_of_nat (unat b div 16) :: u32)"
  "ucast (b AND 0xf) = (word_of_nat (unat b mod 16) :: u32)" for b :: byte
proof -
  have u: "(ucast x :: u32) = word_of_nat (unat x)" for x :: byte by simp
  have "unat (drop_bit 4 b) = unat b div 16" by (simp only: unat_drop_bit_eq) (simp add: drop_bit_eq_div)
  moreover have "b AND 0xf = take_bit 4 b" by (simp add: take_bit_eq_mask mask_eq_exp_minus_1)
  then have "unat (b AND 0xf) = unat b mod 16" by (simp add: take_bit_eq_mod unat_mod)
  ultimately show "ucast (drop_bit 4 b) = (word_of_nat (unat b div 16) :: u32)"
    "ucast (b AND 0xf) = (word_of_nat (unat b mod 16) :: u32)" by (simp_all only: u)
qed

lemma bin2hex_value: "hexValue (bin2hex_loop bs) (length bs) = Some bs"
proof (induction bs)
  case (Cons b bs)
  have "unat b < 256" using unsigned_less [of b] by simp
  then have d: "unat b div 16 < 16" "unat b mod 16 < 16" by auto
  have "word_of_nat (unat b div 16 * 16 + unat b mod 16) = b" by (simp del: of_nat_add of_nat_mult)
  with Cons d show ?case by (simp add: hex_pair_split nibbles hex_char_digit)
qed simp

lemma bin2hex_length [simp]: "length (bin2hex_loop bs) = 2 * length bs"
  by (induction bs) (auto simp: split_beta)

lemma bin2hex_empty [simp]: "bin2hex_loop bs = [] \<longleftrightarrow> bs = []"
  by (cases bs) (auto simp: split_beta)

lemma fromHex_value:
  "fromHex hex = (if even (length hex) then (case hexValue hex (length hex div 2) of None \<Rightarrow> [] | Some out \<Rightarrow> out) else [])"
proof (cases "hex = []")
  case False
  let ?b = "resize (length hex div 2) []"
  have l: "length ?b = length hex div 2" by (simp add: resize_def)
  have "fromHexImpl [] hex = fromHex_array ?b (length ?b) hex"
    using False by (simp add: fromHexImpl_def fromHex_array_def Let_def)
  then show ?thesis
    using fromHex_array_spec [of "length ?b" ?b hex] False by (auto simp: fromHex_def l split: option.splits prod.splits)
qed (simp add: fromHex_def fromHexImpl_def)

section \<open>Properties\<close>

text \<open>C30. Converting to hexadecimal and back is the identity, into a new buffer and into an array with
  enough room, whose other bytes are kept.\<close>

theorem hex_roundtrip:
  assumes "bs \<noteq> []" and "length bs \<le> length bin" and "length bs < 2 ^ 62"
  shows "length (toHex bs) = 2 * length bs \<and> fromHex (toHex bs) = bs
    \<and> fromHex_array bin (length bin) (toHex bs) = (True, bs @ drop (length bs) bin)"
proof -
  have t: "toHex bs = bin2hex_loop bs" using assms(1,3) by (simp add: toHex_def cvt_bin2hex_def)
  have a: "fromHex_array b (length b) (toHex bs) = (True, bs @ drop (length bs) b)" if "length bs \<le> length b" for b
    using fromHex_array_spec [of "length b" b "toHex bs"] that assms(1) by (simp add: prod_eq_iff t bin2hex_value)
  have "fromHex (toHex bs) = bs" by (simp add: fromHex_value t bin2hex_value)
  with a [OF assms(2)] show ?thesis by (simp add: t)
qed

theorem hex_roundtrip_witness:
  "fromHex_array [1, 2, 3] (length [1, 2, 3 :: byte]) (toHex [0xab, 0x09]) = (True, [0xab, 0x09, 3])"
  using hex_roundtrip [of "[0xab, 0x09]" "[1, 2, 3]"] by simp

text \<open>C24. The branch-free decoder is equivalent to the decoder by character ranges that the fee table
  uses: it accepts a string exactly when it is not empty, has an even length, fits into the array
  and \<open>hexValue\<close> accepts it, and then it writes what \<open>hexValue\<close> returns and keeps the
  rest of the array.\<close>

theorem hex_decoders_equivalent:
  assumes "bin_maxlen \<le> length bin"
  shows "(fst (fromHex_array bin bin_maxlen hex) \<longleftrightarrow> hex \<noteq> [] \<and> even (length hex) \<and> length hex div 2 \<le> bin_maxlen
      \<and> hexValue hex (length hex div 2) \<noteq> None)
    \<and> (\<forall>out. fst (fromHex_array bin bin_maxlen hex) \<longrightarrow> hexValue hex (length hex div 2) = Some out
        \<longrightarrow> snd (fromHex_array bin bin_maxlen hex) = out @ drop (length hex div 2) bin)"
  using fromHex_array_spec [OF assms, of hex] by auto

theorem hex_decoders_equivalent_witness:
  "\<not> fst (fromHex_array [0, 0] 2 ''0g'') \<and> \<not> fst (fromHex_array [0, 0] 2 ''abcdef'')"
proof -
  have "hexValue ''0g'' 1 = None" by (simp add: hexDigit_def numeral_eq_Suc)
  then show ?thesis
    using hex_decoders_equivalent [of 2 "[0, 0]" "''0g''"] hex_decoders_equivalent [of 2 "[0, 0]" "''abcdef''"] by simp
qed

end
