(* ===== verification/Job.thy ===== *)
theory Job
  imports Cvt Nonce
begin

text \<open>
  A mining job as the pool sends it, from \<^verbatim>\<open>src/src/base/net/stratum/Job.h\<close> and
  \<^verbatim>\<open>Job.cpp\<close> (the miner, not the proxy). Strings of the class \<^verbatim>\<open>String\<close> may be
  null and are options; a \<^verbatim>\<open>const char *\<close> argument is an option of a string that is cut at its
  first zero byte. The blob is the fixed array of 408 bytes of which the first \<open>j_size\<close> are the
  header to hash. Setters return whether they succeed, and the job, which some of them have changed
  also when they fail.
\<close>

section \<open>Data\<close>

definition kMaxBlobSize :: nat where
  "kMaxBlobSize = 408"

definition kMaxSeedSize :: nat where
  "kMaxSeedSize = 32"

record job =
  j_algorithm :: algo_id
  j_nicehash :: bool
  j_epic :: bool
  j_diardi :: bool
  j_seed :: bytes
  j_verusSolution :: bytes
  j_size :: nat
  j_clientId :: "string option"
  j_extraNonce :: "string option"
  j_id :: "string option"
  j_poolWallet :: "string option"
  j_backend :: u32
  j_diff :: u64
  j_height :: u64
  j_target :: u64
  j_blob :: bytes
  j_index :: nat
  j_ephPublicKey :: bytes
  j_ephSecretKey :: bytes
  j_hasMinerSignature :: bool
  j_benchSize :: u32

definition str_size :: "string option \<Rightarrow> nat" where
  "str_size s = (case s of None \<Rightarrow> 0 | Some t \<Rightarrow> length t)"

definition job_default :: job where
  "job_default = \<lparr> j_algorithm = INVALID, j_nicehash = False, j_epic = False, j_diardi = False, j_seed = [],
     j_verusSolution = [], j_size = 0, j_clientId = None, j_extraNonce = None, j_id = None, j_poolWallet = None,
     j_backend = 0, j_diff = 0, j_height = 0, j_target = 0, j_blob = replicate 408 0, j_index = 0,
     j_ephPublicKey = replicate 32 0, j_ephSecretKey = replicate 32 0, j_hasMinerSignature = False,
     j_benchSize = 0 \<rparr>"

definition job_new :: "bool \<Rightarrow> algo_id \<Rightarrow> string option \<Rightarrow> job" where
  "job_new nicehash algorithm clientId =
     job_default\<lparr> j_algorithm := algorithm, j_nicehash := nicehash, j_clientId := clientId \<rparr>"

section \<open>Reading\<close>

definition isEqualBlob :: "job \<Rightarrow> job \<Rightarrow> bool" where
  "isEqualBlob j other \<longleftrightarrow> j_size j = j_size other \<and> take (j_size j) (j_blob j) = take (j_size j) (j_blob other)"

definition job_isEqual :: "job \<Rightarrow> job \<Rightarrow> bool" where
  "job_isEqual j other \<longleftrightarrow> j_id j = j_id other \<and> j_clientId j = j_clientId other \<and> isEqualBlob j other
     \<and> j_target j = j_target other"

definition isVeil :: "job \<Rightarrow> bool" where
  "isVeil j \<longleftrightarrow> j_algorithm j = RX_VEIL"

definition bigEndianValue :: "job \<Rightarrow> bool" where
  "bigEndianValue j \<longleftrightarrow> j_epic j \<or> isVeil j \<or> j_algorithm j = X16RS_HAC \<or> j_algorithm j = RX_XCB"

definition epicValue :: "bytes \<Rightarrow> u64" where
  "epicValue hash = fold (\<lambda>i value. push_bit 8 value OR ucast (hash ! i)) [0..<8] 0"

definition job_isValid :: "job \<Rightarrow> bool" where
  "job_isValid j \<longleftrightarrow> (j_size j > 0 \<and> j_diff j > 0) \<or> str_size (j_poolWallet j) \<noteq> 0"

definition nonceSize :: "job \<Rightarrow> nat" where
  "nonceSize j = (if family (j_algorithm j) = FAM_KAWPOW \<or> j_algorithm j = RX_XCB then 8 else 4)"

text \<open>Shifting by 64 bits or more is undefined in C; the model gives 0. A pool's extra nonce has at
  most 15 digits.\<close>

definition nonceMask :: "job \<Rightarrow> u64" where
  "nonceMask j =
     (if j_nicehash j then 0xFFFFFF
      else if nonceSize j = 8 then drop_bit (str_size (j_extraNonce j) * 4) (- 1) else 0xFFFFFFFF)"

definition nonceOffset :: "job \<Rightarrow> nat" where
  "nonceOffset j =
     (if j_epic j then (if 4 \<le> j_size j then j_size j - 4 else 0)
      else let f = family (j_algorithm j); a = j_algorithm j
      in if f = FAM_KAWPOW then 32
         else if f = FAM_GHOSTRIDER \<or> f = FAM_YESPOWER \<or> f = FAM_YESCRYPT \<or> f = FAM_FLEX then 76
         else if f = FAM_X16RS then 79
         else if a = RX_YADA then 147
         else if a = RX_SCASH then 76
         else if a = RX_PP then 76
         else if a = RX_VEIL then 140
         else if a = RX_XCB then 32
         else if a = CN_UPX2 then 73
         else if a = VERUSHASH then 112
         else 39)"

definition fixedByte :: "job \<Rightarrow> byte" where
  "fixedByte j = j_blob j ! 42"

definition toDiff :: "u64 \<Rightarrow> u64" where
  "toDiff tgt = (if tgt \<noteq> 0 then 0xFFFFFFFFFFFFFFFF div tgt else 0)"

text \<open>The number of transactions, a varint at the end of the blob: at most four bytes.\<close>

fun num_tx_loop :: "bytes \<Rightarrow> nat \<Rightarrow> u32 \<Rightarrow> u32" where
  "num_tx_loop [] k num = num"
| "num_tx_loop (b # bs) k num =
     (let num = num OR push_bit k (ucast (b AND 0x7F)) in if b AND 0x80 = 0 then num else num_tx_loop bs (k + 7) num)"

definition getNumTransactions :: "job \<Rightarrow> u32" where
  "getNumTransactions j =
     (if \<not> (isCN (j_algorithm j) \<or> family (j_algorithm j) = FAM_RANDOM_X) then 0
      else let expected_tx_offset = (if j_algorithm j = RX_WOW then 141 else 75)
      in if j_size j > expected_tx_offset \<and> j_size j \<le> expected_tx_offset + 4
         then num_tx_loop (take (j_size j - expected_tx_offset) (drop expected_tx_offset (j_blob j))) 0 0 else 0)"

section \<open>Setters\<close>

definition setBlob :: "string option \<Rightarrow> job \<Rightarrow> bool \<times> job" where
  "setBlob arg j =
     (case arg of
        None \<Rightarrow> (False, j)
      | Some text \<Rightarrow>
          let blob = c_str text; size = length blob
          in if size mod 2 \<noteq> 0 then (False, j)
             else let size = size div 2; minSize = nonceOffset j + nonceSize j
             in if size < minSize \<or> size \<ge> kMaxBlobSize then (False, j)
                else (case fromHex_array (j_blob j) kMaxBlobSize blob of (ok, m) \<Rightarrow>
                  let j = j\<lparr> j_blob := m \<rparr>
                  in if \<not> ok then (False, j)
                     else let j = (if read32 (j_blob j) (nonceOffset j) \<noteq> 0 \<and> \<not> j_nicehash j
                                   then j\<lparr> j_nicehash := True \<rparr> else j)
                          in (True, j\<lparr> j_size := size \<rparr>)))"

definition setSeedHash :: "string option \<Rightarrow> job \<Rightarrow> bool \<times> job" where
  "setSeedHash arg j =
     (case arg of
        None \<Rightarrow> (False, j)
      | Some text \<Rightarrow>
          if length (c_str text) \<noteq> kMaxSeedSize * 2 then (False, j)
          else let seed = fromHex (c_str text) in (seed \<noteq> [], j\<lparr> j_seed := seed \<rparr>))"

definition setVerusSolution :: "string option \<Rightarrow> job \<Rightarrow> bool \<times> job" where
  "setVerusSolution arg j =
     (case arg of
        None \<Rightarrow> (False, j)
      | Some text \<Rightarrow>
          if length (c_str text) \<noteq> 1344 * 2 then (False, j)
          else let sol = fromHex (c_str text) in (length sol = 1344, j\<lparr> j_verusSolution := sol \<rparr>))"

text \<open>\<^verbatim>\<open>strtoull(s, nullptr, 16)\<close>: white space, a sign, the prefix 0x when a digit follows it, digits;
  the largest number on overflow.\<close>

definition c_isspace :: "char \<Rightarrow> bool" where
  "c_isspace c \<longleftrightarrow> c \<in> {CHR '' '', CHR 0x09, CHR 0x0A, CHR 0x0B, CHR 0x0C, CHR 0x0D}"

fun hex_digits_value :: "string \<Rightarrow> nat \<Rightarrow> nat" where
  "hex_digits_value [] v = v"
| "hex_digits_value (c # cs) v = (case hexDigit c of None \<Rightarrow> v | Some d \<Rightarrow> hex_digits_value cs (v * 16 + d))"

definition strtoull16 :: "string \<Rightarrow> u64" where
  "strtoull16 s =
     (let s = dropWhile c_isspace s;
          neg = (case s of [] \<Rightarrow> False | c # _ \<Rightarrow> c = CHR ''-'');
          s = (case s of [] \<Rightarrow> [] | c # t \<Rightarrow> if c = CHR ''-'' \<or> c = CHR ''+'' then t else s);
          s = (case s of a # b # c # t \<Rightarrow>
                 if a = CHR ''0'' \<and> (b = CHR ''x'' \<or> b = CHR ''X'') \<and> hexDigit c \<noteq> None then c # t else s
               | _ \<Rightarrow> s);
          v = hex_digits_value s 0
      in if v \<ge> 2 ^ 64 then - 1 else if neg then - of_nat v else of_nat v)"

text \<open>The value of a target: \<open>None\<close> is a division by zero, which ends the process.\<close>

definition target_value :: "algo_id \<Rightarrow> string \<Rightarrow> u64 option" where
  "target_value algorithm tgt =
     (if algorithm = RX_YADA then Some (strtoull16 tgt)
      else let raw = fromHex tgt
      in if length raw = 4
         then let v = ucast (read32 raw 0) :: u64
              in if v = 0 then None else Some (0xFFFFFFFFFFFFFFFF div (0xFFFFFFFF div v))
         else if length raw = 8 then Some (read64 raw 0)
         else Some 0)"

definition setTarget :: "string option \<Rightarrow> job \<Rightarrow> (bool \<times> job) option" where
  "setTarget arg j =
     (let tgt = (case arg of None \<Rightarrow> [] | Some t \<Rightarrow> c_str t)
      in if length tgt < 4 then Some (False, j)
         else (case target_value (j_algorithm j) tgt of
           None \<Rightarrow> None
         | Some v \<Rightarrow>
             let j = j\<lparr> j_target := v \<rparr>
             in if v = 0 then Some (False, j) else Some (True, j\<lparr> j_diff := toDiff v \<rparr>)))"

definition setDiff :: "u64 \<Rightarrow> job \<Rightarrow> job" where
  "setDiff diff j = j\<lparr> j_diff := diff, j_target := toDiff diff \<rparr>"

definition setEpicBlob :: "string option \<Rightarrow> u32 \<Rightarrow> job \<Rightarrow> bool \<times> job" where
  "setEpicBlob arg nonceHigh j =
     (case arg of
        None \<Rightarrow> (False, j)
      | Some text \<Rightarrow>
          let prePow = c_str text; size = length prePow
          in if size = 0 \<or> size mod 2 \<noteq> 0 then (False, j)
             else let size = size div 2
             in if size + 8 \<ge> kMaxBlobSize then (False, j)
                else (case fromHex_array (replicate kMaxBlobSize 0) kMaxBlobSize prePow of (ok, m) \<Rightarrow>
                  if \<not> ok then (False, j\<lparr> j_blob := m \<rparr>)
                  else (True, j\<lparr> j_blob := m[size := ucast (drop_bit 24 nonceHigh), size + 1 := ucast (drop_bit 16 nonceHigh),
                      size + 2 := ucast (drop_bit 8 nonceHigh), size + 3 := ucast nonceHigh],
                    j_size := size + 8, j_epic := True \<rparr>)))"

definition setEphemeralKeys :: "bytes \<Rightarrow> bytes \<Rightarrow> job \<Rightarrow> job" where
  "setEphemeralKeys pub_key sec_key j =
     j\<lparr> j_hasMinerSignature := True, j_ephPublicKey := take 32 pub_key, j_ephSecretKey := take 32 sec_key \<rparr>"

definition setSigKey :: "string option \<Rightarrow> job \<Rightarrow> job" where
  "setSigKey arg j =
     (case arg of
        None \<Rightarrow> j
      | Some text \<Rightarrow>
          if length (c_str text) \<noteq> 64 * 2 then j
          else let buf = fromHex (c_str text)
               in if length buf = 64 then setEphemeralKeys buf (drop 32 buf) j else j)"

definition job_reset :: "job \<Rightarrow> job" where
  "job_reset j = j\<lparr> j_size := 0, j_diff := 0 \<rparr>"

definition job_setBackend :: "u32 \<Rightarrow> job \<Rightarrow> job" where
  "job_setBackend backend j = j\<lparr> j_backend := backend \<rparr>"

definition job_setIndex :: "nat \<Rightarrow> job \<Rightarrow> job" where
  "job_setIndex index j = j\<lparr> j_index := index \<rparr>"

definition job_copy :: "job \<Rightarrow> job \<Rightarrow> job" where
  "job_copy other j = j\<lparr> j_algorithm := j_algorithm other, j_nicehash := j_nicehash other, j_epic := j_epic other,
     j_size := j_size other, j_clientId := j_clientId other, j_id := j_id other, j_backend := j_backend other,
     j_diff := j_diff other, j_height := j_height other, j_diardi := j_diardi other, j_target := j_target other,
     j_index := j_index other, j_seed := j_seed other, j_verusSolution := j_verusSolution other,
     j_extraNonce := j_extraNonce other, j_poolWallet := j_poolWallet other, j_blob := j_blob other,
     j_benchSize := j_benchSize other, j_ephPublicKey := j_ephPublicKey other, j_ephSecretKey := j_ephSecretKey other,
     j_hasMinerSignature := j_hasMinerSignature other \<rparr>"

text \<open>Moving returns the target and what is left of the source.\<close>

definition job_move :: "job \<Rightarrow> job \<Rightarrow> job \<times> job" where
  "job_move other j =
     (job_copy other j,
      other\<lparr> j_clientId := None, j_id := None, j_seed := [], j_verusSolution := [], j_extraNonce := None,
        j_poolWallet := None, j_size := 0, j_diff := 0, j_algorithm := INVALID \<rparr>)"

section \<open>The blob\<close>

text \<open>A job whose nonce lies in its blob.\<close>

definition job_ok :: "job \<Rightarrow> bool" where
  "job_ok j \<longleftrightarrow> length (j_blob j) = kMaxBlobSize \<and> j_size j < kMaxBlobSize
     \<and> (j_size j = 0 \<or> nonceOffset j + nonceSize j \<le> j_size j)"

lemma nonceOffset_fields:
  "\<not> j_epic j \<Longrightarrow> nonceOffset (j\<lparr> j_blob := m \<rparr>) = nonceOffset j"
  "\<not> j_epic j \<Longrightarrow> nonceOffset (j\<lparr> j_size := n \<rparr>) = nonceOffset j"
  "\<not> j_epic j \<Longrightarrow> nonceOffset (j\<lparr> j_nicehash := b \<rparr>) = nonceOffset j"
  "nonceSize (j\<lparr> j_blob := m \<rparr>) = nonceSize j" "nonceSize (j\<lparr> j_size := n \<rparr>) = nonceSize j"
  "nonceSize (j\<lparr> j_nicehash := b \<rparr>) = nonceSize j"
  by (simp_all add: nonceOffset_def nonceSize_def)

lemma setBlob_cases:
  assumes "setBlob arg j = (True, j')"
  obtains t m where "arg = Some t" "even (length (c_str t))"
    "nonceOffset j + nonceSize j \<le> length (c_str t) div 2" "length (c_str t) div 2 < kMaxBlobSize"
    "fromHex_array (j_blob j) kMaxBlobSize (c_str t) = (True, m)"
    "j' = j\<lparr> j_blob := m, j_nicehash := (j_nicehash j \<or> read32 m (nonceOffset (j\<lparr> j_blob := m \<rparr>)) \<noteq> 0),
        j_size := length (c_str t) div 2 \<rparr>"
  using assms unfolding setBlob_def Let_def
  by (auto split: option.split_asm if_split_asm prod.split_asm simp: even_iff_mod_2_eq_zero)

lemma hexValue_length: "hexValue hex n = Some out \<Longrightarrow> length out = n"
  by (induction hex n arbitrary: out rule: hexValue.induct) (auto split: option.splits)

lemma fromHex_array_length:
  assumes "fromHex_array bin m hex = (True, bin')" and "m \<le> length bin"
  shows "hexValue hex (length hex div 2) = Some (take (length hex div 2) bin')" "length bin' = length bin"
proof -
  have ok: "length hex div 2 \<le> m" "hexValue hex (length hex div 2) \<noteq> None"
    "bin' = the (hexValue hex (length hex div 2)) @ drop (length hex div 2) bin"
    using fromHex_array_spec [OF assms(2), of hex] assms(1) by auto
  then obtain out where out: "hexValue hex (length hex div 2) = Some out" by auto
  then show "hexValue hex (length hex div 2) = Some (take (length hex div 2) bin')" "length bin' = length bin"
    using ok assms(2) hexValue_length [OF out] by auto
qed

text \<open>C22. A blob that \<open>setBlob\<close> accepts is safe to mine. The string has an even number of digits, the
  blob is what they decode to and stays inside the array, the nonce of the job lies inside the blob,
  and the job counts as a NiceHash job exactly when it did before or the pool has sent a nonce.\<close>

theorem job_blob_in_bounds:
  assumes "setBlob (Some t) j = (True, j')" and "length (j_blob j) = kMaxBlobSize" and "\<not> j_epic j"
  shows "job_ok j' \<and> 0 < j_size j' \<and> length (c_str t) = 2 * j_size j'
    \<and> hexValue (c_str t) (j_size j') = Some (take (j_size j') (j_blob j'))
    \<and> (j_nicehash j' \<longleftrightarrow> j_nicehash j \<or> read32 (j_blob j') (nonceOffset j') \<noteq> 0)"
proof -
  obtain m where b: "even (length (c_str t))" "nonceOffset j + nonceSize j \<le> length (c_str t) div 2"
    "length (c_str t) div 2 < kMaxBlobSize" "fromHex_array (j_blob j) kMaxBlobSize (c_str t) = (True, m)"
    "j' = j\<lparr> j_blob := m, j_nicehash := (j_nicehash j \<or> read32 m (nonceOffset (j\<lparr> j_blob := m \<rparr>)) \<noteq> 0),
        j_size := length (c_str t) div 2 \<rparr>"
    using assms(1) by (rule setBlob_cases) blast
  note m = fromHex_array_length [OF b(4), of] 
  have n: "nonceOffset j' = nonceOffset j" "nonceSize j' = nonceSize j" "0 < nonceSize j"
    using assms(3) unfolding b(5) by (simp_all add: nonceOffset_def nonceSize_def)
  have "length m = kMaxBlobSize" "hexValue (c_str t) (length (c_str t) div 2) = Some (take (length (c_str t) div 2) m)"
    using m assms(2) by simp_all
  then show ?thesis using b(1-3) n assms(3) by (auto simp: job_ok_def b(5) nonceOffset_fields)
qed

section \<open>The target\<close>

lemma div_div_self:
  fixes N d :: nat
  assumes "0 < d" and "d \<le> N div d"
  shows "N div (N div d) = d"
proof (rule div_nat_eqI)
  have "N = d * (N div d) + N mod d" by simp
  moreover have "N mod d < N div d" using assms by (meson less_le_trans mod_less_divisor)
  ultimately show "N < N div d * Suc d" by (metis add.commute add_less_cancel_left mult.commute mult_Suc)
  show "N div d * d \<le> N" by simp
qed

lemma div_32_64:
  assumes "0 < d" and "d < (2 :: nat) ^ 32"
  shows "d \<le> (2 ^ 64 - 1) div d"
proof -
  have "d * d \<le> (2 ^ 32 - 1) * (2 ^ 32 - 1)" using assms(2) by (intro mult_mono) auto
  then show ?thesis using assms(1) by (simp add: less_eq_div_iff_mult_less_eq)
qed

lemma toDiff_pos: "v \<noteq> 0 \<Longrightarrow> toDiff v \<noteq> 0"
proof -
  assume v: "v \<noteq> 0"
  have "unat v \<le> 2 ^ 64 - 1" using unat_less_64 [of v] by simp
  then have "unat (toDiff v) \<noteq> 0" using v by (simp add: toDiff_def unat_div unat_eq_0 div_eq_0_iff)
  then show ?thesis by auto
qed

text \<open>C23. The target and the difficulty. \<open>setTarget\<close> divides by zero exactly when the target decodes to
  four zero bytes. A target that it accepts is not 0, the difficulty is the largest 64 bit number divided by
  it and is not 0 either; for a short target the difficulty is exactly 0xFFFFFFFF divided by its value,
  although the code goes through the 64 bit target.\<close>

theorem job_target_difficulty:
  "(setTarget (Some t) j = None \<longleftrightarrow> 4 \<le> length (c_str t) \<and> j_algorithm j \<noteq> RX_YADA
      \<and> length (fromHex (c_str t)) = 4 \<and> read32 (fromHex (c_str t)) 0 = 0)
    \<and> (\<forall>j'. setTarget (Some t) j = Some (True, j') \<longrightarrow> j_target j' \<noteq> 0 \<and> j_diff j' = toDiff (j_target j') \<and> j_diff j' \<noteq> 0
      \<and> (j_algorithm j \<noteq> RX_YADA \<and> length (fromHex (c_str t)) = 4 \<longrightarrow>
          unat (j_diff j') = (2 ^ 32 - 1) div unat (read32 (fromHex (c_str t)) 0)))"
proof -
  let ?raw = "fromHex (c_str t)"
  let ?v = "read32 ?raw 0"
  have z: "(ucast ?v :: u64) = 0 \<longleftrightarrow> ?v = 0" by (simp add: word_unat_eq_iff unat_ucast_up)
  have short: "unat (toDiff (0xFFFFFFFFFFFFFFFF div (0xFFFFFFFF div ucast ?v))) = (2 ^ 32 - 1) div unat ?v" if "?v \<noteq> 0"
  proof -
    let ?d = "(2 ^ 32 - 1) div unat ?v"
    have v: "0 < unat ?v" "unat ?v \<le> 2 ^ 32 - 1" using that unat_less_32 [of ?v] by (simp_all add: unat_gt_0)
    then have d: "0 < ?d" "?d < 2 ^ 32" by (auto simp: div_greater_zero_iff intro: le_less_trans [OF div_le_dividend])
    have "unat (0xFFFFFFFFFFFFFFFF div (0xFFFFFFFF div ucast ?v) :: u64) = (2 ^ 64 - 1) div ?d"
      by (simp add: unat_div unat_ucast_up)
    moreover have "(2 ^ 64 - 1) div ((2 ^ 64 - 1) div ?d) = ?d" using d by (intro div_div_self div_32_64)
    moreover have "(2 ^ 64 - 1) div ?d \<noteq> 0" using d div_32_64 [of ?d] by linarith
    ultimately show ?thesis by (auto simp: toDiff_def unat_div word_unat_eq_iff)
  qed
  show ?thesis
    using short toDiff_pos by (auto simp: setTarget_def target_value_def Let_def z split: if_splits)
qed

theorem job_target_difficulty_witness:
  "setTarget (Some ''00000000'') job_default = None
    \<and> (\<exists>j'. setTarget (Some ''e4a63d00'') job_default = Some (True, j') \<and> unat (j_diff j') = 1063)"
proof -
  have h: "fromHex (c_str ''00000000'') = [0, 0, 0, 0]" "fromHex (c_str ''e4a63d00'') = [0xe4, 0xa6, 0x3d, 0]"
    "length (c_str ''00000000'') = 8" "length (c_str ''e4a63d00'') = 8"
    by (simp_all add: c_str_def fromHex_value hexDigit_def)
  have a: "j_algorithm job_default \<noteq> RX_YADA" by (simp add: job_default_def INVALID_def RX_YADA_def)
  have r: "read32 [0, 0, 0, 0] 0 = 0" "read32 [0xe4, 0xa6, 0x3d, 0] 0 = 4040420" by (simp_all add: read32_def)
  have "\<exists>j'. setTarget (Some ''e4a63d00'') job_default = Some (True, j')"
    using a by (simp add: setTarget_def target_value_def h r)
  then show ?thesis
    using job_target_difficulty [of "''00000000''" job_default] job_target_difficulty [of "''e4a63d00''" job_default] h a r
    by fastforce
qed

theorem job_blob_in_bounds_witness:
  "\<exists>j'. setBlob (Some (replicate 152 CHR ''0'')) (job_new False RX_0 None) = (True, j') \<and> job_ok j' \<and> j_size j' = 76"
proof -
  let ?t = "replicate 152 CHR ''0''" and ?j = "job_new False RX_0 None"
  have c: "c_str ?t = ?t" by (simp add: c_str_def takeWhile_eq_all_conv)
  have e: "\<not> j_epic ?j" "length (j_blob ?j) = kMaxBlobSize" by (simp_all add: job_new_def job_default_def kMaxBlobSize_def)
  have hv: "hexValue (replicate (2 * n) CHR ''0'') n = Some (replicate n 0)" for n
    by (induction n) (simp_all add: hexDigit_def)
  have "fst (fromHex_array (j_blob ?j) kMaxBlobSize ?t)"
    using fromHex_array_spec(1) [of kMaxBlobSize "j_blob ?j" ?t] hv [of 76] e(2) by (simp add: kMaxBlobSize_def)
  moreover have "nonceOffset ?j = 39" "nonceSize ?j = 4"
    by (simp_all add: nonceOffset_def nonceSize_def job_new_def job_default_def family_def isCN_def algo_id_defs family_defs)
  ultimately have "\<exists>j'. setBlob (Some ?t) ?j = (True, j')"
    by (auto simp: setBlob_def c kMaxBlobSize_def Let_def split: prod.split)
  then obtain j' where j: "setBlob (Some ?t) ?j = (True, j')" ..
  from job_blob_in_bounds [OF j e(2,1)] have "job_ok j'" "length ?t = 2 * j_size j'" unfolding c by blast+
  with j show ?thesis by simp
qed

end
