(* ===== verification/WorkerJob.thy ===== *)
theory WorkerJob
  imports Job
begin

text \<open>
  The job of a worker, from \<^verbatim>\<open>src/src/backend/common/WorkerJob.h\<close>: two slots (the user's
  pool and the fee pool), each with a copy of the job, \<open>N\<close> blobs one behind the other, a counter of
  rounds and the mask of the nonces. The general template and its specialisation for \<open>N = 1\<close> are
  modelled; the calls of \<open>Nonce::next\<close> go to the shared state of \<open>Nonce\<close>, and a result \<open>None\<close>
  would mean that one of them does not return. Worker and counters meet in the locale \<open>nonce_source\<close>,
  which is interpreted for \<open>Nonce::next\<close> at the end.
\<close>

section \<open>State\<close>

record worker_job =
  w_blobs :: "nat \<Rightarrow> bytes"
  w_jobs :: "nat \<Rightarrow> job"
  w_rounds :: "nat \<Rightarrow> u32"
  w_nonce_mask :: "nat \<Rightarrow> u64"
  w_sequence :: u64
  w_index :: nat

definition worker_init :: "nat \<Rightarrow> worker_job" where
  "worker_init N = \<lparr> w_blobs = (\<lambda>_. replicate (kMaxBlobSize * N) 0), w_jobs = (\<lambda>_. job_default), w_rounds = (\<lambda>_. 0),
     w_nonce_mask = (\<lambda>_. 0), w_sequence = 0, w_index = 0 \<rparr>"

definition currentJob :: "worker_job \<Rightarrow> job" where
  "currentJob w = w_jobs w (w_index w)"

definition w_blob :: "worker_job \<Rightarrow> bytes" where
  "w_blob w = w_blobs w (w_index w)"

definition set_blob :: "bytes \<Rightarrow> worker_job \<Rightarrow> worker_job" where
  "set_blob m w = w\<lparr> w_blobs := (w_blobs w)(w_index w := m) \<rparr>"

text \<open>The position of the nonce of blob \<open>i\<close>.\<close>

definition w_nonce :: "nat \<Rightarrow> worker_job \<Rightarrow> nat" where
  "w_nonce i w = i * j_size (currentJob w) + nonceOffset (currentJob w)"

definition w_nonceMask :: "worker_job \<Rightarrow> u64" where
  "w_nonceMask w = w_nonce_mask w (w_index w)"

text \<open>\<^verbatim>\<open>memcpy(mem + p, src, n)\<close>.\<close>

definition memcpy :: "bytes \<Rightarrow> nat \<Rightarrow> bytes \<Rightarrow> nat \<Rightarrow> bytes" where
  "memcpy mem p src n = take p mem @ take n src @ drop (p + n) mem"

definition backend_id :: "backend \<Rightarrow> u32" where
  "backend_id b = (case b of BACKEND_CPU \<Rightarrow> 0 | BACKEND_OPENCL \<Rightarrow> 1 | BACKEND_CUDA \<Rightarrow> 2)"

section \<open>Operations\<close>

definition w_next :: "nat \<Rightarrow> u32 \<Rightarrow> worker_job \<Rightarrow> nonce_state \<Rightarrow> (bool \<times> worker_job \<times> nonce_state) option" where
  "w_next i reserveCount w n =
     (case nonce_next (w_index w) (w_blob w) (w_nonce i w) reserveCount (w_nonceMask w) n of
        None \<Rightarrow> None
      | Some (ok, m, n) \<Rightarrow> Some (ok, set_blob m w, n))"

definition save_slot :: "job \<Rightarrow> backend \<Rightarrow> worker_job \<Rightarrow> worker_job" where
  "save_slot job backend w =
     (let i = j_index job
      in w\<lparr> w_index := i, w_jobs := (w_jobs w)(i := job_setBackend (backend_id backend) (job_copy job (w_jobs w i))),
            w_rounds := (w_rounds w)(i := 0), w_nonce_mask := (w_nonce_mask w)(i := nonceMask job) \<rparr>)"

fun save_blobs :: "nat list \<Rightarrow> job \<Rightarrow> u32 \<Rightarrow> worker_job \<Rightarrow> nonce_state \<Rightarrow> (worker_job \<times> nonce_state) option" where
  "save_blobs [] job reserveCount w n = Some (w, n)"
| "save_blobs (i # is) job reserveCount w n =
     (let w = set_blob (memcpy (w_blob w) (i * j_size job) (j_blob job) (j_size job)) w
      in case w_next i reserveCount w n of
           None \<Rightarrow> None
         | Some (_, w, n) \<Rightarrow> save_blobs is job reserveCount w n)"

definition w_save :: "nat \<Rightarrow> job \<Rightarrow> u32 \<Rightarrow> backend \<Rightarrow> worker_job \<Rightarrow> nonce_state \<Rightarrow> (worker_job \<times> nonce_state) option" where
  "w_save N job reserveCount backend w n = save_blobs [0..<N] job reserveCount (save_slot job backend w) n"

definition w_add :: "nat \<Rightarrow> job \<Rightarrow> u32 \<Rightarrow> backend \<Rightarrow> worker_job \<Rightarrow> nonce_state \<Rightarrow> (worker_job \<times> nonce_state) option" where
  "w_add N job reserveCount backend w n =
     (let w = w\<lparr> w_sequence := nonce_sequence backend n \<rparr>
      in if job_isEqual (currentJob w) job then Some (w, n)
         else if w_index w = 1 \<and> j_index job = 0 \<and> job_isEqual job (w_jobs w 0) then Some (w\<lparr> w_index := 0 \<rparr>, n)
         else w_save N job reserveCount backend w n)"

definition count_round :: "worker_job \<Rightarrow> worker_job" where
  "count_round w = w\<lparr> w_rounds := (w_rounds w)(w_index w := w_rounds w (w_index w) + 1) \<rparr>"

definition add_nonce :: "nat \<Rightarrow> u32 \<Rightarrow> worker_job \<Rightarrow> worker_job" where
  "add_nonce i roundSize w =
     set_blob (write32 (w_blob w) (w_nonce i w) (read32 (w_blob w) (w_nonce i w) + roundSize)) w"

fun next_all :: "nat list \<Rightarrow> u32 \<Rightarrow> worker_job \<Rightarrow> nonce_state \<Rightarrow> (bool \<times> worker_job \<times> nonce_state) option" where
  "next_all [] reserveCount w n = Some (True, w, n)"
| "next_all (i # is) reserveCount w n =
     (case w_next i reserveCount w n of
        None \<Rightarrow> None
      | Some (ok, w, n) \<Rightarrow> if ok then next_all is reserveCount w n else Some (False, w, n))"

definition nextRound :: "nat \<Rightarrow> u32 \<Rightarrow> u32 \<Rightarrow> worker_job \<Rightarrow> nonce_state \<Rightarrow> (bool \<times> worker_job \<times> nonce_state) option" where
  "nextRound N rounds roundSize w n =
     (let w = count_round w
      in if w_rounds w (w_index w) AND (rounds - 1) = 0 then next_all [0..<N] (rounds * roundSize) w n
         else Some (True, fold (\<lambda>i. add_nonce i roundSize) [0..<N] w, n))"

text \<open>The specialisation for one blob also copies the high word of a 64 bit nonce into the job.\<close>

definition copy_high :: "worker_job \<Rightarrow> worker_job" where
  "copy_high w =
     (let i = w_index w; j = w_jobs w i
      in w\<lparr> w_jobs := (w_jobs w)(i := j\<lparr> j_blob := write32 (j_blob j) (nonceOffset j + 4)
           (read32 (w_blob w) (w_nonce 0 w + 4)) \<rparr>) \<rparr>)"

definition nextRound1 :: "u32 \<Rightarrow> u32 \<Rightarrow> worker_job \<Rightarrow> nonce_state \<Rightarrow> (bool \<times> worker_job \<times> nonce_state) option" where
  "nextRound1 rounds roundSize w n =
     (let w = count_round w
      in if w_rounds w (w_index w) AND (rounds - 1) = 0
         then (case w_next 0 (rounds * roundSize) w n of
             None \<Rightarrow> None
           | Some (ok, w, n) \<Rightarrow>
               if \<not> ok then Some (False, w, n)
               else Some (True, if nonceSize (currentJob w) = 8 then copy_high w else w, n))
         else Some (True, add_nonce 0 roundSize w, n))"

section \<open>The interface to the shared counters\<close>

locale nonce_source =
  fixes src_next :: "nat \<Rightarrow> bytes \<Rightarrow> nat \<Rightarrow> u32 \<Rightarrow> u64 \<Rightarrow> 's \<Rightarrow> (bool \<times> bytes \<times> 's) option"
    and src_counter :: "'s \<Rightarrow> nat \<Rightarrow> u64"
  assumes src_returns: "src_next index mem p r m s \<noteq> None"
    and src_reserves: "src_next index mem p r (mask k) s = Some (True, mem', s') \<Longrightarrow> k \<le> 64 \<Longrightarrow> p + 8 \<le> length mem \<Longrightarrow>
      \<exists>c. src_counter s index \<le> c \<and> src_counter s' = (src_counter s)(index := c + ucast r)
        \<and> unat c + unat r \<le> 2 ^ min k 63 \<and> length mem' = length mem
        \<and> (\<forall>i < unat r. read64 (write32 mem' p (read32 mem' p + of_nat i)) p
            = (read64 mem p AND NOT (mask (min k 63))) OR (c + of_nat i))"
begin

text \<open>The nonces of a range are distinct, also in the bits that the mask leaves to the miner.\<close>

lemma range_nonces:
  assumes "src_next index mem p r (mask k) s = Some (True, mem', s')" and "k \<le> 64" and "p + 8 \<le> length mem"
    and "i < unat r" and "j < unat r" and "i \<noteq> j"
  shows "read64 (write32 mem' p (read32 mem' p + of_nat i)) p \<noteq> read64 (write32 mem' p (read32 mem' p + of_nat j)) p"
proof -
  let ?x = "read64 mem p AND NOT (mask (min k 63))"
  obtain c where c: "unat c + unat r \<le> 2 ^ min k 63" "\<forall>i < unat r. read64 (write32 mem' p (read32 mem' p + of_nat i)) p
      = ?x OR (c + of_nat i)"
    using src_reserves [OF assms(1-3)] by blast
  have "(2 :: nat) ^ min k 63 \<le> 2 ^ 63" by (intro power_increasing) auto
  then have "unat (c + of_nat n) = unat c + n" if "n < unat r" for n
    using that c(1) by (simp add: unat_word_ariths unsigned_of_nat take_bit_eq_mod)
  then have u: "unat (c + of_nat i) = unat c + i" "unat (c + of_nat j) = unat c + j" using assms(4,5) by auto
  then have "?x OR (c + of_nat i) = ?x + (c + of_nat i)" "?x OR (c + of_nat j) = ?x + (c + of_nat j)"
    using c(1) assms(4,5) by (intro masked_add; simp)+
  moreover have "c + of_nat i \<noteq> c + of_nat j" using u assms(6) by (metis add_left_cancel)
  ultimately show ?thesis using c(2) assms(4,5) by simp
qed

end

interpretation counters: nonce_source nonce_next n_nonces
proof
  show "nonce_next index mem p r m s \<noteq> None" for index mem p r m s
    using nonce_next_total [of index mem p r m s] by auto
qed (rule nonce_next_range)

section \<open>Walking through a range\<close>

text \<open>\<open>k\<close> successful rounds.\<close>

fun walk :: "nat \<Rightarrow> u32 \<Rightarrow> u32 \<Rightarrow> worker_job \<Rightarrow> nonce_state \<Rightarrow> (worker_job \<times> nonce_state) option" where
  "walk 0 rounds roundSize w n = Some (w, n)"
| "walk (Suc k) rounds roundSize w n =
     (case walk k rounds roundSize w n of
        None \<Rightarrow> None
      | Some (w, n) \<Rightarrow> (case nextRound1 rounds roundSize w n of
          Some (True, w, n) \<Rightarrow> Some (w, n) | _ \<Rightarrow> None))"

text \<open>The state \<open>k\<close> rounds after \<open>w\<close>.\<close>

definition walked :: "nat \<Rightarrow> u32 \<Rightarrow> worker_job \<Rightarrow> worker_job \<Rightarrow> bool" where
  "walked k roundSize w w' \<longleftrightarrow> w_index w' = w_index w \<and> w_jobs w' = w_jobs w \<and> w_nonce_mask w' = w_nonce_mask w
     \<and> w_rounds w' (w_index w) = w_rounds w (w_index w) + of_nat k \<and> length (w_blob w') = length (w_blob w)
     \<and> read32 (w_blob w') (w_nonce 0 w) = read32 (w_blob w) (w_nonce 0 w) + of_nat k * roundSize
     \<and> read32 (w_blob w') (w_nonce 0 w + 4) = read32 (w_blob w) (w_nonce 0 w + 4)"

lemma and_pow2_minus_1:
  assumes "e < 32"
  shows "x AND (2 ^ e - 1) = (0 :: u32) \<longleftrightarrow> unat x mod 2 ^ e = 0"
proof -
  have "x AND (2 ^ e - 1) = take_bit e x" by (simp add: take_bit_eq_mask mask_eq_exp_minus_1)
  moreover have "unat (take_bit e x) = unat x mod 2 ^ e" by (subst unsigned_take_bit_eq, subst take_bit_eq_mod) simp
  ultimately show ?thesis by (metis unat_eq_0)
qed

lemma unat_pow2: "e < 32 \<Longrightarrow> unat (2 ^ e :: u32) = 2 ^ e"
proof -
  assume e: "e < 32"
  have "(2 ^ e :: u32) = of_nat (2 ^ e)" by simp
  then show ?thesis using e by (simp only: unsigned_of_nat) (simp add: take_bit_nat_eq_self_iff)
qed

lemma rounds_mod:
  assumes "unat r mod 2 ^ e = 0" and "e < 32" and "0 < k" and "k < 2 ^ e"
  shows "unat (r + of_nat k :: u32) mod 2 ^ e \<noteq> 0"
proof -
  have "unat (r + of_nat k :: u32) mod 2 ^ e = (unat r + k) mod 2 ^ 32 mod 2 ^ e"
    by (simp add: unat_word_ariths unsigned_of_nat take_bit_eq_mod mod_add_right_eq)
  also have "\<dots> = (unat r + k) mod 2 ^ e" using assms(2) by (intro mod_mod_cancel le_imp_power_dvd) simp
  also have "\<dots> = k mod 2 ^ e" using assms(1) by (simp add: mod_add_left_eq [symmetric, of "unat r"])
  finally show ?thesis using assms(3,4) by simp
qed

lemma walk_step:
  assumes "walked k roundSize w w'" and "w_nonce 0 w + 4 \<le> length (w_blob w)"
    and "unat (w_rounds w' (w_index w) + 1) mod 2 ^ e \<noteq> 0" and "e < 32"
  shows "\<exists>w''. nextRound1 (2 ^ e) roundSize w' n = Some (True, w'', n) \<and> walked (Suc k) roundSize w w''"
proof -
  have p: "w_nonce 0 w' = w_nonce 0 w" "w_nonce 0 (count_round w') = w_nonce 0 w" "w_blob (count_round w') = w_blob w'"
    using assms(1) by (simp_all add: walked_def w_nonce_def currentJob_def count_round_def w_blob_def)
  have "w_rounds (count_round w') (w_index w') AND (2 ^ e - 1) \<noteq> 0"
    using assms(1,3) and_pow2_minus_1 [OF assms(4), of "w_rounds w' (w_index w') + 1"]
    by (simp add: count_round_def walked_def)
  then have "nextRound1 (2 ^ e) roundSize w' n = Some (True, add_nonce 0 roundSize (count_round w'), n)"
    by (simp add: nextRound1_def count_round_def)
  moreover have "walked (Suc k) roundSize w (add_nonce 0 roundSize (count_round w'))"
    using assms(1,2) p unfolding walked_def
    by (auto simp: add_nonce_def set_blob_def w_blob_def count_round_def algebra_simps)
  ultimately show ?thesis by blast
qed

lemma walk_walked:
  assumes "w_nonce 0 w + 4 \<le> length (w_blob w)" and "unat (w_rounds w (w_index w)) mod 2 ^ e = 0" and "e < 32"
  shows "k < 2 ^ e \<Longrightarrow> \<exists>w'. walk k (2 ^ e) roundSize w n = Some (w', n) \<and> walked k roundSize w w'"
proof (induction k)
  case 0
  show ?case by (simp add: walked_def)
next
  case (Suc k)
  then obtain w' where w': "walk k (2 ^ e) roundSize w n = Some (w', n)" "walked k roundSize w w'" by auto
  have r: "w_rounds w' (w_index w) + 1 = w_rounds w (w_index w) + of_nat (Suc k)"
    using w'(2) by (simp add: walked_def)
  have "unat (w_rounds w' (w_index w) + 1) mod 2 ^ e \<noteq> 0"
    unfolding r using rounds_mod [OF assms(2,3), of "Suc k"] Suc.prems by blast
  from walk_step [OF w'(2) assms(1) this assms(3)] obtain w'' where
    "nextRound1 (2 ^ e) roundSize w' n = Some (True, w'', n)" "walked (Suc k) roundSize w w''" by blast
  then show ?case using w'(1) by auto
qed


text \<open>A worker with one blob of 76 bytes and a NiceHash mask, after the reservation of 16 nonces.\<close>

definition demo_mem :: bytes where
  "demo_mem = replicate 42 0 @ [0xAA] @ replicate 365 0"

definition demo_worker :: worker_job where
  "demo_worker = (worker_init 1)\<lparr> w_blobs := (\<lambda>_. demo_mem), w_jobs := (\<lambda>_. job_new True RX_0 None) \<rparr>"


end
