(* ===== verification/Spec2Isabelle.thy ===== *)
theory Spec2Isabelle
  imports Scalar_Correct Field_Bytes Base64 Donate_Correct Nonce_Run WorkerJob
begin

text \<open>
  A verification of poolpayminer, a fork of the miner XMRig whose operator takes a fee of the mining
  time. All paths are below \<^verbatim>\<open>src/src/\<close>.

  \<^bold>\<open>The program.\<close> The miner keeps a connection to the user's pool through a strategy
  (\<^verbatim>\<open>base/net/stratum/strategies\<close>), which reports the active client to its owner. A job from the pool
  (\<^verbatim>\<open>base/net/stratum/Job.cpp\<close>) is handed to workers on all processors and GPUs, each with a copy
  (\<^verbatim>\<open>backend/common/WorkerJob.h\<close>), which divide the nonces among them through shared atomic counters
  (\<^verbatim>\<open>crypto/common/Nonce.cpp\<close>). A second strategy (\<^verbatim>\<open>net/strategies/DonateStrategy.cpp\<close>) takes
  over for a few minutes in each cycle and mines on the operator's routes, which come from a table
  (\<^verbatim>\<open>net/strategies/FeeTable.cpp\<close>) that the operator can update with signed files. For solo mining
  the miner signs blocks with Ed25519 arithmetic (\<^verbatim>\<open>base/tools/cryptonote/crypto-ops.c\<close>).

  \<^bold>\<open>The theories.\<close>
  \<^item> \<open>Prelude\<close>: words and signed integers of a fixed width, bytes as numbers, digits, intervals.
    \<open>Limbs\<close>: straight-line arithmetic on lists of limbs, its runs on intervals, and the locale \<open>limb_machine\<close>
    that turns an interval run into the absence of overflow. \<open>Loads\<close>: \<open>load_3\<close>, \<open>load_4\<close> and the
    digits they read.
  \<^item> \<open>Scalar\<close>, \<open>Scalar_Correct\<close>: the \<open>sc_*\<close> functions of \<^verbatim>\<open>crypto-ops.c\<close>, arithmetic modulo the order of
    the group on 21 bit limbs. Every function returns the canonical bytes of the value it is
    named after, for all inputs, and no \<^verbatim>\<open>int64_t\<close> overflows on the way.
  \<^item> \<open>Field\<close>, \<open>Field_Correct\<close>, \<open>Field_Bytes\<close>: the \<open>fe_*\<close> functions, arithmetic modulo 2^255 - 19 on limbs of 26 and
    25 bits within the bounds that the comments of the code state, the power chains of inversion and
    square root (locale \<open>power_chain\<close>), and the conversion from and to bytes.
  \<^item> \<open>Algorithm\<close>: \<^verbatim>\<open>base/crypto/Algorithm.{h,cpp}\<close>, the identifiers of the hash algorithms with their names and
    aliases for a build with all of them.
  \<^item> \<open>FeeTable\<close>, \<open>Base64\<close>, \<open>FeeTable_Correct\<close>: the fee table. The state is the record \<open>fee_state\<close>;
    \<open>apply_file\<close> is \<open>apply\<close>, with an error value for each reason to refuse a file; \<open>fee_start\<close>, \<open>fee_tick\<close>
    and \<open>onHttpData\<close> are the schedule. \<open>fee_reach\<close> are its reachable states. There always is a valid route,
    routes change only through a signed file and to what it says, and no file is accepted twice. The locale \<open>route_source\<close> is the
    interface to the fee strategy.
  \<^item> \<open>Strategies\<close>: \<open>FailoverStrategy\<close> and \<open>SinglePoolStrategy\<close>, with commands and calls of the listener as
    outputs of the operations. The failover strategy refines the specification \<open>choose_step\<close>; the locale
    \<open>strategy_protocol\<close> says what the listener may conclude, and both strategies are instances.
  \<^item> \<open>Donate\<close>, \<open>Donate_Correct\<close>: the fee strategy as a state machine (\<open>setState\<close>, \<open>d_step\<close>) on top of the inner
    strategy and the fee table, and runs of both together (\<open>sys_step\<close>): the fee is mined on current, valid
    routes, with a strategy constructed for them, in cycles of the right length. Connecting has no time limit.
  \<^item> \<open>Cvt\<close>: \<^verbatim>\<open>base/tools/Cvt.cpp\<close>, hexadecimal conversion: the branch-free decoder is equivalent to the one of the fee
    table, and decoding inverts encoding.
  \<^item> \<open>Nonce\<close>, \<open>Nonce_Run\<close>: the distribution of nonces. \<open>nonce_next\<close> is \<open>Nonce::next\<close>; it returns,
    and what it reserves lies below the mask. \<open>nonce_run\<close> interleaves the atomic steps of any number
    of workers: no nonce is given out twice.
  \<^item> \<open>Job\<close>: parsing of what the pool sends; an accepted blob contains the nonce, an accepted target has the right
    difficulty. \<open>WorkerJob\<close>: the slots and rounds of a worker; it walks through exactly the range it has reserved.
    The locale \<open>nonce_source\<close> is the interface between worker and counters.

  \<^bold>\<open>Conventions.\<close> Structures are records with the fields of the code, enumerations are datatypes,
  unsigned integers are words, and the signed 32 and 64 bit integers of the limb arithmetic are integers with
  explicit wrap-around (\<open>i32\<close>, \<open>i64\<close>). Code outside the repository is a parameter: JSON
  parsing, Ed25519 verification by OpenSSL, clocks, the network. The only loop that is not
  structurally recursive, that of \<open>Nonce::next\<close>, is a partial function whose termination is a theorem; there is no
  fuel anywhere.

  \<^bold>\<open>Not modelled.\<close>
  \<^item> The group operations (\<open>ge_*\<close>) of \<^verbatim>\<open>crypto-ops.c\<close>, the signatures and the block templates of
    \<^verbatim>\<open>base/tools/cryptonote\<close>: the next part of the plan.
  \<^item> The hash functions below \<^verbatim>\<open>crypto/\<close> and the device code: vendored or generated, with intrinsics, machine code
    and floating point, and nothing in the repository states what they should compute.
  \<^item> Clients, TLS, HTTP, DNS, logging, configuration, hardware access and the start of threads and processes: input and output
    through libraries; their effect on the modelled parts appears as events.
  \<^item> Members of the proxy and test builds, and log messages.
\<close>

end
